theory Spec2Isabelle
  imports Complex_Main "HOL-Library.Sublist" "HOL-Library.AList"
begin

section \<open>Python string primitives\<close>

text \<open>
  Texts are modelled as \<open>string\<close>: lists of 8-bit characters, read as the code points
  \<open>U+0000\<close> to \<open>U+00FF\<close> of a Python \<open>str\<close>. On these code points \<open>isspace\<close> is
  \<open>str.isspace\<close>: TAB to CR, FS to US, the space, NEL (\<open>0x85\<close>) and the no-break space
  (\<open>0xA0\<close>). It is the class that \<open>str.strip()\<close> and \<open>str.split()\<close> use.
\<close>

definition isspace :: "char \<Rightarrow> bool" where
  "isspace c = (c \<in> set [CHR 0x09, CHR 0x0A, CHR 0x0B, CHR 0x0C, CHR 0x0D,
                           CHR 0x1C, CHR 0x1D, CHR 0x1E, CHR 0x1F, CHR 0x20,
                           CHR 0x85, CHR 0xA0])"

definition upper_letters :: string where
  "upper_letters = ''ABCDEFGHIJKLMNOPQRSTUVWXYZ''"

definition lower_letters :: string where
  "lower_letters = ''abcdefghijklmnopqrstuvwxyz''"

text \<open>
  \<open>lower_char\<close> folds the case of the letters \<open>A..Z\<close>; it is what a regular expression
  compiled with \<open>re.IGNORECASE\<close> compares when the pattern consists of ASCII letters.
\<close>

definition lower_char :: "char \<Rightarrow> char" where
  "lower_char c = (case map_of (zip upper_letters lower_letters) c of Some d \<Rightarrow> d | None \<Rightarrow> c)"

text \<open>
  \<open>str.lower()\<close>: besides \<open>A..Z\<close>, the capital letters of the upper half of the code
  points (\<open>0xC0\<close> to \<open>0xDE\<close> without the multiplication sign \<open>0xD7\<close>) are mapped to the
  small letters 32 places further on; every other character stays.
\<close>

definition latin1_upper :: string where
  "latin1_upper =
     [CHR 0xC0, CHR 0xC1, CHR 0xC2, CHR 0xC3, CHR 0xC4, CHR 0xC5, CHR 0xC6, CHR 0xC7,
      CHR 0xC8, CHR 0xC9, CHR 0xCA, CHR 0xCB, CHR 0xCC, CHR 0xCD, CHR 0xCE, CHR 0xCF,
      CHR 0xD0, CHR 0xD1, CHR 0xD2, CHR 0xD3, CHR 0xD4, CHR 0xD5, CHR 0xD6,
      CHR 0xD8, CHR 0xD9, CHR 0xDA, CHR 0xDB, CHR 0xDC, CHR 0xDD, CHR 0xDE]"

definition latin1_lower :: string where
  "latin1_lower =
     [CHR 0xE0, CHR 0xE1, CHR 0xE2, CHR 0xE3, CHR 0xE4, CHR 0xE5, CHR 0xE6, CHR 0xE7,
      CHR 0xE8, CHR 0xE9, CHR 0xEA, CHR 0xEB, CHR 0xEC, CHR 0xED, CHR 0xEE, CHR 0xEF,
      CHR 0xF0, CHR 0xF1, CHR 0xF2, CHR 0xF3, CHR 0xF4, CHR 0xF5, CHR 0xF6,
      CHR 0xF8, CHR 0xF9, CHR 0xFA, CHR 0xFB, CHR 0xFC, CHR 0xFD, CHR 0xFE]"

definition str_lower_char :: "char \<Rightarrow> char" where
  "str_lower_char c =
     (case map_of (zip (upper_letters @ latin1_upper) (lower_letters @ latin1_lower)) c of
        Some d \<Rightarrow> d | None \<Rightarrow> c)"

definition py_lower :: "string \<Rightarrow> string" where
  "py_lower s = map str_lower_char s"

text \<open>\<open>s.strip(chars)\<close>: drop leading and trailing characters that satisfy \<open>P\<close>.\<close>

definition strip_where :: "(char \<Rightarrow> bool) \<Rightarrow> string \<Rightarrow> string" where
  "strip_where P s = rev (dropWhile P (rev (dropWhile P s)))"

definition py_strip :: "string \<Rightarrow> string" where
  "py_strip s = strip_where isspace s"

text \<open>\<open>s.split()\<close> with no argument: the maximal runs of non-whitespace characters.\<close>

fun split_acc :: "string \<Rightarrow> string \<Rightarrow> string list" where
  "split_acc cur [] = (if cur = [] then [] else [cur])"
| "split_acc cur (c # cs) =
     (if isspace c then (if cur = [] then split_acc [] cs else cur # split_acc [] cs)
      else split_acc (cur @ [c]) cs)"

definition py_split :: "string \<Rightarrow> string list" where
  "py_split s = split_acc [] s"

text \<open>\<open>p in s\<close> for strings: \<open>p\<close> occurs in \<open>s\<close> as a contiguous substring.\<close>

fun contains :: "string \<Rightarrow> string \<Rightarrow> bool" where
  "contains p [] = (p = [])"
| "contains p (c # cs) = (prefix p (c # cs) \<or> contains p cs)"

text \<open>Decimal rendering of a natural number, and zero padding as \<open>strftime\<close> does it.\<close>

definition digit_char :: "nat \<Rightarrow> char" where
  "digit_char n = ''0123456789'' ! (n mod 10)"

fun show_nat :: "nat \<Rightarrow> string" where
  "show_nat n = (if n < 10 then [digit_char n] else show_nat (n div 10) @ [digit_char n])"

declare show_nat.simps [simp del]

definition zpad :: "nat \<Rightarrow> nat \<Rightarrow> string" where
  "zpad w n = replicate (w - length (show_nat n)) (CHR ''0'') @ show_nat n"

section \<open>Paths and timestamps\<close>

text \<open>
  A \<open>pathlib.Path\<close> is modelled by its parent directory and its final component.
  \<open>stem\<close> and \<open>suffix\<close> follow \<open>PurePath\<close>: the name is cut at its last dot unless that
  dot is the first or the last character of the name.
\<close>

record path =
  parent :: string
  name :: string

definition path_str :: "path \<Rightarrow> string" where
  "path_str p = parent p @ ''/'' @ name p"

definition join :: "string \<Rightarrow> string \<Rightarrow> string" where
  "join d n = d @ ''/'' @ n"

definition rfind_dot :: "string \<Rightarrow> nat option" where
  "rfind_dot n =
     (let r = dropWhile (\<lambda>c. c \<noteq> CHR ''.'') (rev n)
      in if r = [] then None else Some (length r - 1))"

definition stem :: "path \<Rightarrow> string" where
  "stem p =
     (case rfind_dot (name p) of
        None \<Rightarrow> name p
      | Some i \<Rightarrow> if 0 < i \<and> i < length (name p) - 1 then take i (name p) else name p)"

definition suffix_of :: "path \<Rightarrow> string" where
  "suffix_of p =
     (case rfind_dot (name p) of
        None \<Rightarrow> []
      | Some i \<Rightarrow> if 0 < i \<and> i < length (name p) - 1 then drop i (name p) else [])"

text \<open>
  \<open>datetime\<close> values as returned by \<open>datetime.now()\<close>; the formats are the three
  \<open>strftime\<close> patterns of the source and \<open>isoformat()\<close>. Years are printed with four
  digits, which is what the C library does for the years \<open>datetime.now()\<close> can return.
\<close>

record datetime =
  year :: nat
  month :: nat
  day :: nat
  hour :: nat
  minute :: nat
  second :: nat
  microsecond :: nat

definition strftime_compact :: "datetime \<Rightarrow> string" where
  \<comment> \<open>\<open>'%Y%m%d-%H%M%S'\<close>\<close>
  "strftime_compact d =
     zpad 4 (year d) @ zpad 2 (month d) @ zpad 2 (day d) @ ''-'' @
     zpad 2 (hour d) @ zpad 2 (minute d) @ zpad 2 (second d)"

definition strftime_minute :: "datetime \<Rightarrow> string" where
  \<comment> \<open>\<open>'%Y-%m-%d %H:%M'\<close>\<close>
  "strftime_minute d =
     zpad 4 (year d) @ ''-'' @ zpad 2 (month d) @ ''-'' @ zpad 2 (day d) @ '' '' @
     zpad 2 (hour d) @ '':'' @ zpad 2 (minute d)"

definition strftime_month :: "datetime \<Rightarrow> string" where
  \<comment> \<open>\<open>'%Y-%m'\<close>\<close>
  "strftime_month d = zpad 4 (year d) @ ''-'' @ zpad 2 (month d)"

definition isoformat :: "datetime \<Rightarrow> string" where
  "isoformat d =
     zpad 4 (year d) @ ''-'' @ zpad 2 (month d) @ ''-'' @ zpad 2 (day d) @ ''T'' @
     zpad 2 (hour d) @ '':'' @ zpad 2 (minute d) @ '':'' @ zpad 2 (second d) @
     (if microsecond d = 0 then [] else ''.'' @ zpad 6 (microsecond d))"

section \<open>Session identifiers\<close>

text \<open>
  \<open>AudioProcessor._make_session_id\<close>:
  \<^verbatim>\<open>base = re.sub(r"[^a-zA-Z0-9._-]+", "-", audio_path.stem).strip("-").lower() or "audio"\<close>
  \<^verbatim>\<open>return f"{now.strftime('%Y%m%d-%H%M%S')}-{base}"\<close>
  The regular expression is scanned left to right: at a character outside the class the
  greedy \<open>+\<close> consumes the whole run, which is replaced by one \<open>-\<close>.
\<close>

definition allowed :: "char \<Rightarrow> bool" where
  "allowed c = (c \<in> set (lower_letters @ upper_letters @ ''0123456789'' @ ''._-''))"

function re_sub_runs :: "string \<Rightarrow> string" where
  "re_sub_runs [] = []"
| "re_sub_runs (c # cs) =
     (if allowed c then c # re_sub_runs cs
      else CHR ''-'' # re_sub_runs (dropWhile (\<lambda>d. \<not> allowed d) cs))"
  by pat_completeness auto
termination
  by (relation "measure length") (auto simp: length_dropWhile_le le_imp_less_Suc)

definition session_base :: "string \<Rightarrow> string" where
  "session_base st =
     (let b = py_lower (strip_where (\<lambda>c. c = CHR ''-'') (re_sub_runs st))
      in if b = [] then ''audio'' else b)"

definition make_session_id :: "path \<Rightarrow> datetime \<Rightarrow> string" where
  "make_session_id audio_path now = strftime_compact now @ ''-'' @ session_base (stem audio_path)"

text \<open>
  The same token, written from the specification's words: cut the stem into its maximal
  runs of characters of the same kind (inside or outside the class), replace every run
  of outside characters by a single separator, strip separators at both ends, lowercase,
  and fall back to the placeholder when nothing is left.
\<close>

fun group_runs :: "('a \<Rightarrow> bool) \<Rightarrow> 'a list \<Rightarrow> 'a list list" where
  "group_runs P [] = []"
| "group_runs P (x # xs) =
     (case group_runs P xs of
        [] \<Rightarrow> [[x]]
      | g # gs \<Rightarrow> if P x = P (hd g) then (x # g) # gs else [x] # g # gs)"

definition collapse_runs_spec :: "string \<Rightarrow> string" where
  "collapse_runs_spec s = concat (map (\<lambda>r. if allowed (hd r) then r else ''-'') (group_runs allowed s))"

definition strip_separators_spec :: "string \<Rightarrow> string" where
  "strip_separators_spec s =
     (let t = dropWhile (\<lambda>c. c = CHR ''-'') s
      in take (length t - length (takeWhile (\<lambda>c. c = CHR ''-'') (rev t))) t)"

definition session_token_spec :: "string \<Rightarrow> string" where
  "session_token_spec st =
     (let t = py_lower (strip_separators_spec (collapse_runs_spec st))
      in if t = [] then ''audio'' else t)"

section \<open>Exceptions\<close>

text \<open>
  Python exceptions as values; every constructor stands for a subclass of \<open>Exception\<close>
  (so the pipeline's \<open>except Exception\<close> catches all of them) and carries the text that
  \<open>str(exc)\<close> returns. \<open>RequestException\<close> is \<open>requests.RequestException\<close> and its
  subclasses, \<open>OverflowError\<close> is what \<open>time.sleep\<close> raises for a time out of range,
  \<open>OtherError\<close> any further exception of a collaborator (\<open>IndexError\<close>,
  \<open>AttributeError\<close>, ...).
\<close>

datatype exn =
    ValueError string
  | RuntimeError string
  | RequestException string
  | OSError string
  | ZeroDivisionError string
  | OverflowError string
  | OtherError string

fun exn_str :: "exn \<Rightarrow> string" where
  "exn_str (ValueError m) = m"
| "exn_str (RuntimeError m) = m"
| "exn_str (RequestException m) = m"
| "exn_str (OSError m) = m"
| "exn_str (ZeroDivisionError m) = m"
| "exn_str (OverflowError m) = m"
| "exn_str (OtherError m) = m"

section \<open>Configuration (config.py)\<close>

text \<open>
  A Python \<open>float\<close> as \<open>float(os.getenv(...))\<close> can return it: a finite number (given by
  its exact value), an infinity, or not a number.
\<close>

datatype pyfloat = Finite rat | PlusInfinity | MinusInfinity | NaN

record config =
  vault_path :: string
  ANTHROPIC_API_KEY :: "string option"
  LOCAL_LLM_RETRIES :: int
  LOCAL_LLM_RETRY_BACKOFF_SEC :: pyfloat
  USE_CLAUDE_FOR_COMPLEX :: bool
  ANONYMIZE_FOR_CLAUDE :: bool

definition audio_dir :: "config \<Rightarrow> string" where
  "audio_dir cfg = join (vault_path cfg) ''audio''"

definition processed_dir :: "config \<Rightarrow> string" where
  "processed_dir cfg = join (audio_dir cfg) ''processed''"

definition capture_file :: "config \<Rightarrow> string" where
  "capture_file cfg = join (vault_path cfg) ''capture.md''"

definition logs_dir :: "config \<Rightarrow> string" where
  "logs_dir cfg = join (vault_path cfg) ''logs''"

definition raw_dir :: "config \<Rightarrow> string" where
  "raw_dir cfg = join (vault_path cfg) ''raw''"

definition sessions_dir :: "config \<Rightarrow> string" where
  "sessions_dir cfg = join (vault_path cfg) ''sessions''"

definition metrics_file :: "config \<Rightarrow> string" where
  "metrics_file cfg = join (logs_dir cfg) ''metrics.jsonl''"

section \<open>Redaction codec (anonymization.py)\<close>

definition ANONYMIZATION_MAP :: "(string \<times> string) list" where
  "ANONYMIZATION_MAP =
     [(''Anthropic'', ''[COMPANY_A]''),
      (''Google'', ''[COMPANY_B]''),
      (''OpenAI'', ''[COMPANY_C]''),
      (''Obsidian'', ''[TOOL_A]''),
      (''Ollama'', ''[TOOL_B]'')]"

text \<open>
  \<open>re.compile(re.escape(original), re.IGNORECASE)\<close> matches the literal term with the case
  of letters ignored. \<open>ci_prefix pat s\<close>: the pattern matches at the start of \<open>s\<close>.
\<close>

fun ci_prefix :: "string \<Rightarrow> string \<Rightarrow> bool" where
  "ci_prefix [] s = True"
| "ci_prefix (p # ps) [] = False"
| "ci_prefix (p # ps) (c # cs) = (lower_char p = lower_char c \<and> ci_prefix ps cs)"

text \<open>\<open>pattern.search(s)\<close> as a truth value: the pattern matches somewhere in \<open>s\<close>.\<close>

fun ci_search :: "string \<Rightarrow> string \<Rightarrow> bool" where
  "ci_search pat [] = (pat = [])"
| "ci_search pat (c # cs) = (ci_prefix pat (c # cs) \<or> ci_search pat cs)"

text \<open>
  Replacement of all non-overlapping matches, leftmost first, as both \<open>pattern.sub\<close> and
  \<open>str.replace\<close> do it for a non-empty pattern; \<open>m pat s\<close> says that the pattern matches
  at the start of \<open>s\<close>. For the empty pattern both insert the replacement before every
  character and at the end. The placeholders contain no backslash, so \<open>pattern.sub\<close>
  inserts them literally.
\<close>

function sub_scan :: "(string \<Rightarrow> string \<Rightarrow> bool) \<Rightarrow> string \<Rightarrow> string \<Rightarrow> string \<Rightarrow> string" where
  "sub_scan m pat repl [] = []"
| "sub_scan m pat repl (c # cs) =
     (if m pat (c # cs) then repl @ sub_scan m pat repl (drop (length pat - 1) cs)
      else c # sub_scan m pat repl cs)"
  by pat_completeness auto
termination
  by (relation "measure (\<lambda>(m, pat, repl, s). length s)") auto

definition sub_all :: "(string \<Rightarrow> string \<Rightarrow> bool) \<Rightarrow> string \<Rightarrow> string \<Rightarrow> string \<Rightarrow> string" where
  "sub_all m pat repl s =
     (if pat = [] then repl @ concat (map (\<lambda>c. c # repl) s) else sub_scan m pat repl s)"

definition re_sub_ci :: "string \<Rightarrow> string \<Rightarrow> string \<Rightarrow> string" where
  "re_sub_ci pat repl s = sub_all ci_prefix pat repl s"

definition str_replace :: "string \<Rightarrow> string \<Rightarrow> string \<Rightarrow> string" where
  "str_replace old new s = sub_all prefix old new s"

text \<open>
  The reverse map is a Python \<open>dict\<close>, which keeps insertion order: an association list
  updated in place (\<open>AList.update\<close> appends a new key at the end).
\<close>

definition anonymize_step :: "string \<times> string \<Rightarrow> string \<times> (string \<times> string) list \<Rightarrow> string \<times> (string \<times> string) list" where
  "anonymize_step = (\<lambda>(original, placeholder) (anonymized, reverse_map).
     if ci_search original anonymized
     then (re_sub_ci original placeholder anonymized, AList.update placeholder original reverse_map)
     else (anonymized, reverse_map))"

definition anonymize :: "string \<Rightarrow> string \<times> (string \<times> string) list" where
  "anonymize text = fold anonymize_step ANONYMIZATION_MAP (text, [])"

definition deanonymize :: "string \<Rightarrow> (string \<times> string) list \<Rightarrow> string" where
  "deanonymize text reverse_map =
     fold (\<lambda>(placeholder, original) output. str_replace placeholder original output) reverse_map text"

section \<open>The outside world\<close>

text \<open>
  What one invocation gets from outside the program: the clocks, the speech engine, the
  local completion server, the remote API, and whether each file operation fails. Every
  reading of a clock and every file operation of the source is a site of its own, so the
  environment can answer each independently. A \<open>perf_counter\<close> reading is a Python
  \<open>float\<close>, given by its exact value. \<open>sleep_out_of_range\<close> says which finite numbers of
  seconds the platform's clock type cannot hold (on CPython with a 64-bit count of
  nanoseconds, those of about 292 years and more).
\<close>

datatype now_site = NowStart | NowRawTranscript | NowCapture | NowArchive | NowLogFile | NowLogPayload

datatype pc_site =
    PcT0 | PcTranscribed | PcRawTotal | PcCleanupStart | PcCleanupEnd | PcBreakdownStart
  | PcBreakdownEnd | PcCaptureStart | PcCaptureEnd | PcTotal | PcHandlerTotal

datatype io_site =
    MkSessionDir | WriteRawArchive | WriteRawSession | WriteCleaned | WriteTasks
  | AppendCapture | ArchiveAudio | WriteSessionMeta | AppendMetrics | LogEvent
  | HandlerWriteSessionMeta | HandlerAppendMetrics

text \<open>
  One attempt of \<open>requests.post\<close>, \<open>raise_for_status\<close>, \<open>response.json()\<close> and the lookup
  of \<open>choices[0].message.content\<close>: an exception, or the content string before \<open>strip()\<close>.
\<close>

datatype outcome = Raises exn | Content string

record env =
  datetime_now :: "now_site \<Rightarrow> datetime"
  perf_counter :: "pc_site \<Rightarrow> rat"
  io_error :: "io_site \<Rightarrow> exn option"
  sleep_out_of_range :: "rat \<Rightarrow> bool"
  whisper :: "string \<Rightarrow> exn + string list"
  probe :: "exn option"
  post :: "string \<Rightarrow> nat \<Rightarrow> outcome"
  claude :: "string \<Rightarrow> exn + string option list"

text \<open>Calls made to the collaborators, in order.\<close>

datatype call =
    Transcribe string
  | LocalProbe
  | LocalPost string nat
  | ClaudeCreate string

section \<open>Run records and the state of the vault\<close>

text \<open>
  The \<open>metrics\<close> dictionary. Keys that the source adds along the way are optional fields
  (\<open>None\<close>: the key is absent); \<open>transcription_method\<close> and \<open>breakdown_model\<close> are present
  from the start with the value \<open>None\<close>. \<open>durations_sec\<close> keeps insertion order.
\<close>

record run_record =
  session_id :: string
  timestamp :: string
  audio_file :: string
  audio_path :: string
  raw_only :: bool
  clean_only :: bool
  status :: string
  durations_sec :: "(string \<times> rat) list"
  transcription_method :: "string option"
  breakdown_model :: "string option"
  capture_file_key :: string
  session_dir :: string
  raw_transcript_path :: "string option"
  raw_chars :: "nat option"
  raw_words :: "nat option"
  archived_audio_path :: "string option"
  clean_chars :: "nat option"
  clean_words :: "nat option"
  compression_ratio :: "rat option"
  clean_transcript_path :: "string option"
  tasks_path :: "string option"
  error :: "string option"

record event =
  ev_timestamp :: string
  ev_audio_file :: string
  ev_transcription_method :: string
  ev_breakdown_model :: string

datatype content = Text string | MetaJson run_record

text \<open>
  The mutable state: the probe flag of the \<open>LLMProcessor\<close>, the trace of collaborator
  calls, the directories and text files written, the three append-only logs (one list
  element per appended entry or line) and the audio files present in the vault.
\<close>

record world =
  local_llm_checked :: bool
  calls :: "call list"
  dirs :: "string list"
  files :: "(string \<times> content) list"
  capture_md :: "string list"
  metrics_jsonl :: "run_record list"
  events_jsonl :: "(string \<times> event) list"
  audio_files :: "string list"

section \<open>Local and remote text generation (llm.py)\<close>

definition anthropic_client :: "config \<Rightarrow> bool" where
  \<comment> \<open>\<open>__init__\<close>: a client exists iff \<open>ANTHROPIC_API_KEY\<close> is set and not empty\<close>
  "anthropic_client cfg = (case ANTHROPIC_API_KEY cfg of None \<Rightarrow> False | Some k \<Rightarrow> k \<noteq> [])"

definition check_local_llm :: "env \<Rightarrow> world \<Rightarrow> (exn + unit) \<times> world" where
  "check_local_llm e w =
     (if local_llm_checked w then (Inr (), w)
      else (case probe e of
              Some x \<Rightarrow> (Inl x, w\<lparr>calls := calls w @ [LocalProbe]\<rparr>)
            | None \<Rightarrow> (Inr (), w\<lparr>calls := calls w @ [LocalProbe], local_llm_checked := True\<rparr>)))"

definition str_last_error :: "exn option \<Rightarrow> string" where
  "str_last_error l = (case l of None \<Rightarrow> ''None'' | Some x \<Rightarrow> exn_str x)"

definition terminal_error :: "string \<Rightarrow> nat \<Rightarrow> exn option \<Rightarrow> exn" where
  "terminal_error operation attempts last_error =
     RuntimeError (''Local LLM '' @ operation @ '' failed after '' @ show_nat attempts @
                   '' attempts: '' @ str_last_error last_error)"

definition attempt_result :: "outcome \<Rightarrow> exn + string" where
  "attempt_result r =
     (case r of
        Raises x \<Rightarrow> Inl x
      | Content c \<Rightarrow>
          (let content = py_strip c
           in if content = [] then Inl (ValueError ''Local LLM returned empty content'')
              else Inr content))"

fun retryable :: "exn \<Rightarrow> bool" where
  \<comment> \<open>\<open>except (requests.RequestException, ValueError)\<close>\<close>
  "retryable (RequestException m) = True"
| "retryable (ValueError m) = True"
| "retryable x = False"

text \<open>
  \<open>time.sleep(secs)\<close> for a \<open>float\<close> argument: it raises \<open>ValueError\<close> for not-a-number
  and for a negative time, \<open>OverflowError\<close> for a time out of the range of the clock type
  (the infinities among them), and returns after the pause otherwise; the range is
  checked first. The pause itself changes nothing in the world. The messages are those
  of CPython 3.11.
\<close>

definition time_sleep :: "env \<Rightarrow> pyfloat \<Rightarrow> exn + unit" where
  "time_sleep e secs =
     (case secs of
        NaN \<Rightarrow> Inl (ValueError ''Invalid value NaN (not a number)'')
      | PlusInfinity \<Rightarrow> Inl (OverflowError ''timestamp out of range for platform time_t'')
      | MinusInfinity \<Rightarrow> Inl (OverflowError ''timestamp out of range for platform time_t'')
      | Finite x \<Rightarrow>
          if sleep_out_of_range e x
          then Inl (OverflowError ''timestamp out of range for platform time_t'')
          else if x < 0 then Inl (ValueError ''sleep length must be non-negative'')
          else Inr ())"

text \<open>
  The \<open>for attempt in range(1, attempts + 1)\<close> loop; the argument \<open>n\<close> counts the
  iterations that are left. An exception of \<open>time.sleep\<close> is raised inside the \<open>except\<close>
  clause, so it leaves the method as it is. The retry notice is not modelled.
\<close>

fun completion_loop ::
  "env \<Rightarrow> pyfloat \<Rightarrow> (nat \<Rightarrow> outcome) \<Rightarrow> string \<Rightarrow> nat \<Rightarrow> nat \<Rightarrow> nat \<Rightarrow> exn option \<Rightarrow> world \<Rightarrow> (exn + string) \<times> world" where
  "completion_loop e backoff req operation attempts 0 attempt last_error w =
     (Inl (terminal_error operation attempts last_error), w)"
| "completion_loop e backoff req operation attempts (Suc n) attempt last_error w =
     (let w' = w\<lparr>calls := calls w @ [LocalPost operation attempt]\<rparr>
      in case attempt_result (req attempt) of
           Inr content \<Rightarrow> (Inr content, w')
         | Inl exc \<Rightarrow>
             if retryable exc
             then (if attempt \<ge> attempts
                   then (Inl (terminal_error operation attempts (Some exc)), w')
                   else (case time_sleep e backoff of
                           Inl x \<Rightarrow> (Inl x, w')
                         | Inr u \<Rightarrow>
                             completion_loop e backoff req operation attempts n (attempt + 1) (Some exc) w'))
             else (Inl exc, w'))"

definition attempts_of :: "config \<Rightarrow> nat" where
  "attempts_of cfg = nat (max 1 (LOCAL_LLM_RETRIES cfg + 1))"

definition local_chat_completion :: "config \<Rightarrow> env \<Rightarrow> string \<Rightarrow> string \<Rightarrow> world \<Rightarrow> (exn + string) \<times> world" where
  "local_chat_completion cfg e prompt operation w =
     (case check_local_llm e w of
        (Inl x, w1) \<Rightarrow> (Inl x, w1)
      | (Inr u, w1) \<Rightarrow>
          completion_loop e (LOCAL_LLM_RETRY_BACKOFF_SEC cfg) (post e prompt) operation
            (attempts_of cfg) (attempts_of cfg) 1 None w1)"

definition cleanup_prompt :: "string \<Rightarrow> string" where
  "cleanup_prompt raw_text =
     ''Clean up this voice transcription. Preserve meaning.\<newline>\<newline>Raw transcription:\<newline>'' @ raw_text @
     ''\<newline>\<newline>Instructions:\<newline>- Remove filler words and obvious speech artifacts.\<newline>'' @
     ''- Fix repeated words and punctuation.\<newline>- Keep original intent and facts.\<newline>\<newline>'' @
     ''Return only cleaned text.''"

definition cleanup_transcription :: "config \<Rightarrow> env \<Rightarrow> string \<Rightarrow> world \<Rightarrow> (exn + string) \<times> world" where
  "cleanup_transcription cfg e raw_text w =
     local_chat_completion cfg e (cleanup_prompt raw_text) ''cleanup'' w"

definition phrases :: "string list" where
  "phrases =
     [''break down'', ''step by step'', ''what should i do'', ''what's the best way'',
      ''plan'', ''depends on'', ''blocked by'', ''sequence'']"

definition should_use_claude :: "config \<Rightarrow> string \<Rightarrow> bool" where
  "should_use_claude cfg text =
     (if \<not> USE_CLAUDE_FOR_COMPLEX cfg \<or> \<not> anthropic_client cfg then False
      else (let lowered = py_lower text
            in length (py_split text) > 60 \<or> list_ex (\<lambda>p. contains p lowered) phrases))"

definition local_breakdown_prompt :: "string \<Rightarrow> string" where
  "local_breakdown_prompt clean_text =
     ''Convert this note into actionable tasks.\<newline>\<newline>Text:\<newline>'' @ clean_text @
     ''\<newline>\<newline>Output markdown checklist only.\<newline>Format each line as:\<newline>'' @
     ''- [ ] Action (~time) #tags\<newline>\<newline>'' @
     ''Tags allowed: #work #personal #research #quick #deep-work''"

definition breakdown_with_local_llm :: "config \<Rightarrow> env \<Rightarrow> string \<Rightarrow> world \<Rightarrow> (exn + string) \<times> world" where
  "breakdown_with_local_llm cfg e clean_text w =
     local_chat_completion cfg e (local_breakdown_prompt clean_text) ''task breakdown'' w"

definition claude_prompt :: "string \<Rightarrow> string" where
  "claude_prompt input_text =
     ''Break this into specific next actions.\<newline>\<newline>Task:\<newline>'' @ input_text @
     ''\<newline>\<newline>Output markdown checklist only.\<newline>Format:\<newline>'' @
     ''- [ ] Action (~time) #tags\<newline>\<newline>'' @
     ''Include dependencies and execution order if relevant.''"

text \<open>\<open>sep.join(parts)\<close>\<close>

fun str_join :: "string \<Rightarrow> string list \<Rightarrow> string" where
  "str_join sep [] = []"
| "str_join sep [x] = x"
| "str_join sep (x # y # ys) = x @ sep @ str_join sep (y # ys)"

text \<open>
  The blocks of the remote answer are given by their \<open>text\<close> attribute (\<open>None\<close>: a block
  without one); blocks without text or with empty text are skipped.
\<close>

definition block_texts :: "string option list \<Rightarrow> string list" where
  "block_texts blocks = concat (map (\<lambda>b. case b of None \<Rightarrow> [] | Some t \<Rightarrow> if t = [] then [] else [t]) blocks)"

definition breakdown_with_claude :: "config \<Rightarrow> env \<Rightarrow> string \<Rightarrow> world \<Rightarrow> (exn + string) \<times> world" where
  "breakdown_with_claude cfg e clean_text w =
     (if \<not> anthropic_client cfg then (Inl (ValueError ''ANTHROPIC_API_KEY is not configured''), w)
      else
        (let (input_text, reverse_map) =
               (if ANONYMIZE_FOR_CLAUDE cfg then anonymize clean_text else (clean_text, []));
             w' = w\<lparr>calls := calls w @ [ClaudeCreate (claude_prompt input_text)]\<rparr>
         in case claude e (claude_prompt input_text) of
              Inl x \<Rightarrow> (Inl x, w')
            | Inr blocks \<Rightarrow>
                (let result = py_strip (str_join ''\<newline>'' (block_texts blocks));
                     result = (if reverse_map \<noteq> [] then deanonymize result reverse_map else result)
                 in if result = [] then (Inl (ValueError ''Claude breakdown returned empty text''), w')
                    else (Inr result, w'))))"

definition breakdown_tasks :: "config \<Rightarrow> env \<Rightarrow> string \<Rightarrow> world \<Rightarrow> (exn + string \<times> string) \<times> world" where
  "breakdown_tasks cfg e clean_text w =
     (if should_use_claude cfg clean_text
      then (case breakdown_with_claude cfg e clean_text w of
              (Inl x, w') \<Rightarrow> (Inl x, w')
            | (Inr r, w') \<Rightarrow> (Inr (r, ''claude''), w'))
      else (case breakdown_with_local_llm cfg e clean_text w of
              (Inl x, w') \<Rightarrow> (Inl x, w')
            | (Inr r, w') \<Rightarrow> (Inr (r, ''local_llm''), w')))"

section \<open>Transcription (transcription.py)\<close>

text \<open>
  The speech engine returns the texts of the recognised segments, or raises. The lazy
  loading of the model and the progress notices are not modelled.
\<close>

definition transcribe :: "env \<Rightarrow> path \<Rightarrow> world \<Rightarrow> (exn + string \<times> string) \<times> world" where
  "transcribe e p w =
     (let w' = w\<lparr>calls := calls w @ [Transcribe (path_str p)]\<rparr>
      in case whisper e (path_str p) of
           Inl x \<Rightarrow> (Inl x, w')
         | Inr segments \<Rightarrow>
             (let text = py_strip (str_join '' '' (map py_strip segments))
              in if text = [] then (Inl (ValueError ''Transcription returned empty text''), w')
                 else (Inr (text, ''whisper_local''), w')))"

section \<open>The processing pipeline (process_audio.py)\<close>

text \<open>
  Python's \<open>float\<close> is the IEEE 754 binary64 format: 53 significant bits, results rounded
  to the nearest representable number, a tie going to the one with an even last bit. A
  \<open>float\<close> is modelled by its exact value, a rational number. \<open>nearest_double r\<close> is the
  double nearest to \<open>r\<close>: with \<open>2^e \<le> |r| < 2^(e+1)\<close> the doubles around \<open>r\<close> are the
  multiples of \<open>2^(e-52)\<close>. The range of the exponent is not modelled: the numbers rounded
  here are quotients of two string lengths, fractions with four or three decimals, and
  differences of clock readings, far from overflow and underflow.
\<close>

definition round_half_even :: "rat \<Rightarrow> int" where
  "round_half_even x =
     (let f = \<lfloor>x\<rfloor>; d = x - of_int f
      in if d < 1 / 2 then f else if 1 / 2 < d then f + 1 else if even f then f else f + 1)"

fun bit_length :: "nat \<Rightarrow> nat" where
  "bit_length n = (if n = 0 then 0 else Suc (bit_length (n div 2)))"

declare bit_length.simps [simp del]

definition binary_exponent :: "rat \<Rightarrow> int" where
  \<comment> \<open>for \<open>0 < r\<close>: the \<open>e\<close> with \<open>2^e \<le> r < 2^(e+1)\<close>\<close>
  "binary_exponent r =
     (if 1 \<le> r then int (bit_length (nat \<lfloor>r\<rfloor>)) - 1
      else - int (bit_length (nat (\<lceil>1 / r\<rceil> - 1))))"

definition nearest_double :: "rat \<Rightarrow> rat" where
  "nearest_double r =
     (if r = 0 then 0
      else (let ulp = 2 powi (binary_exponent \<bar>r\<bar> - 52)
            in of_int (round_half_even (r / ulp)) * ulp))"

text \<open>
  \<open>x - y\<close> on two \<open>float\<close>s is the rounded difference. \<open>round(x, ndigits)\<close> on a \<open>float\<close>
  rounds the exact value of \<open>x\<close> to \<open>ndigits\<close> decimal places, a tie going to the even
  digit, and returns the double nearest to that decimal number.
\<close>

definition float_sub :: "rat \<Rightarrow> rat \<Rightarrow> rat" where
  "float_sub x y = nearest_double (x - y)"

definition py_round :: "rat \<Rightarrow> nat \<Rightarrow> rat" where
  "py_round x ndigits = nearest_double (of_int (round_half_even (x * 10 ^ ndigits)) / 10 ^ ndigits)"

definition elapsed :: "env \<Rightarrow> pc_site \<Rightarrow> pc_site \<Rightarrow> rat" where
  \<comment> \<open>\<open>round(time.perf_counter() - t, 3)\<close>, the first site being the later reading\<close>
  "elapsed e later earlier = py_round (float_sub (perf_counter e later) (perf_counter e earlier)) 3"

text \<open>
  The body of \<open>process\<close> runs on the local dictionary \<open>metrics\<close> and the world. A step
  either raises, leaving the state as it was when the exception occurred, or returns a
  value; \<open>bindE\<close> is the sequencing of two statements.
\<close>

type_synonym pstate = "run_record \<times> world"

definition bindE :: "(pstate \<Rightarrow> (exn + 'a) \<times> pstate) \<Rightarrow> ('a \<Rightarrow> pstate \<Rightarrow> (exn + 'b) \<times> pstate) \<Rightarrow> pstate \<Rightarrow> (exn + 'b) \<times> pstate" where
  "bindE m f s = (case m s of (Inl x, s') \<Rightarrow> (Inl x, s') | (Inr v, s') \<Rightarrow> f v s')"

definition returnE :: "'a \<Rightarrow> pstate \<Rightarrow> (exn + 'a) \<times> pstate" where
  "returnE v s = (Inr v, s)"

definition set_metrics :: "(run_record \<Rightarrow> run_record) \<Rightarrow> pstate \<Rightarrow> (exn + unit) \<times> pstate" where
  "set_metrics f s = (Inr (), (f (fst s), snd s))"

definition lift :: "(world \<Rightarrow> (exn + 'a) \<times> world) \<Rightarrow> pstate \<Rightarrow> (exn + 'a) \<times> pstate" where
  "lift c s = (case c (snd s) of (r, w') \<Rightarrow> (r, (fst s, w')))"

text \<open>
  A file operation at a site: it raises what the environment says, changing nothing, or
  it takes effect.
\<close>

definition io :: "env \<Rightarrow> io_site \<Rightarrow> 'a \<Rightarrow> (world \<Rightarrow> world) \<Rightarrow> world \<Rightarrow> (exn + 'a) \<times> world" where
  "io e site v f w = (case io_error e site of Some x \<Rightarrow> (Inl x, w) | None \<Rightarrow> (Inr v, f w))"

definition mkdir :: "env \<Rightarrow> io_site \<Rightarrow> string \<Rightarrow> world \<Rightarrow> (exn + unit) \<times> world" where
  \<comment> \<open>\<open>mkdir(parents=True, exist_ok=True)\<close>\<close>
  "mkdir e site d w = io e site () (\<lambda>w. w\<lparr>dirs := List.insert d (dirs w)\<rparr>) w"

definition write_text :: "env \<Rightarrow> io_site \<Rightarrow> string \<Rightarrow> string \<Rightarrow> string \<Rightarrow> world \<Rightarrow> (exn + string) \<times> world" where
  \<comment> \<open>\<open>_write_text(dir / file, content)\<close>: creates the parent, writes \<open>content.strip() + "\n"\<close>\<close>
  "write_text e site dir file text w =
     io e site (join dir file)
        (\<lambda>w. w\<lparr>dirs := List.insert dir (dirs w),
                files := AList.update (join dir file) (Text (py_strip text @ ''\<newline>'')) (files w)\<rparr>) w"

definition write_session_metadata :: "env \<Rightarrow> io_site \<Rightarrow> string \<Rightarrow> pstate \<Rightarrow> (exn + unit) \<times> pstate" where
  \<comment> \<open>the file holds \<open>json.dumps(metrics, indent=2)\<close>: the dictionary as it is at this moment\<close>
  "write_session_metadata e site sdir s =
     lift (io e site ()
        (\<lambda>w. w\<lparr>dirs := List.insert sdir (dirs w),
                files := AList.update (join sdir ''session_meta.json'') (MetaJson (fst s)) (files w)\<rparr>)) s"

definition append_metrics :: "env \<Rightarrow> io_site \<Rightarrow> pstate \<Rightarrow> (exn + unit) \<times> pstate" where
  \<comment> \<open>one line \<open>json.dumps(metrics)\<close> appended to the metrics file\<close>
  "append_metrics e site s =
     lift (io e site () (\<lambda>w. w\<lparr>metrics_jsonl := metrics_jsonl w @ [fst s]\<rparr>)) s"

definition save_raw_transcript :: "config \<Rightarrow> env \<Rightarrow> path \<Rightarrow> string \<Rightarrow> string \<Rightarrow> world \<Rightarrow> (exn + string) \<times> world" where
  "save_raw_transcript cfg e p raw_text sdir w =
     (let stamp = strftime_compact (datetime_now e NowRawTranscript)
      in case write_text e WriteRawArchive (raw_dir cfg) (stamp @ ''-'' @ stem p @ ''.txt'') raw_text w of
           (Inl x, w1) \<Rightarrow> (Inl x, w1)
         | (Inr raw_output, w1) \<Rightarrow> write_text e WriteRawSession sdir ''raw_transcript.txt'' raw_text w1)"

definition archive_audio :: "config \<Rightarrow> env \<Rightarrow> path \<Rightarrow> world \<Rightarrow> (exn + string) \<times> world" where
  \<comment> \<open>\<open>shutil.move\<close> to \<open>processed/\<close>, under a stamped name if the plain one is taken\<close>
  "archive_audio cfg e p w =
     (let destination = join (processed_dir cfg) (name p);
          destination =
            (if destination \<in> set (audio_files w)
             then join (processed_dir cfg)
                    (stem p @ ''-'' @ strftime_compact (datetime_now e NowArchive) @ suffix_of p)
             else destination)
      in io e ArchiveAudio destination
           (\<lambda>w. w\<lparr>audio_files := List.insert destination (removeAll (path_str p) (audio_files w))\<rparr>) w)"

definition log_event :: "config \<Rightarrow> env \<Rightarrow> path \<Rightarrow> string \<Rightarrow> string \<Rightarrow> world \<Rightarrow> (exn + unit) \<times> world" where
  "log_event cfg e p method model_used w =
     (let log_file = join (logs_dir cfg) (strftime_month (datetime_now e NowLogFile) @ ''-processing.jsonl'');
          payload = \<lparr>ev_timestamp = isoformat (datetime_now e NowLogPayload), ev_audio_file = name p,
                     ev_transcription_method = method, ev_breakdown_model = model_used\<rparr>
      in io e LogEvent () (\<lambda>w. w\<lparr>events_jsonl := events_jsonl w @ [(log_file, payload)]\<rparr>) w)"

definition capture_entry :: "string \<Rightarrow> string \<Rightarrow> string \<Rightarrow> string \<Rightarrow> string \<Rightarrow> string \<Rightarrow> string \<Rightarrow> string" where
  "capture_entry stamp audio_name raw_text clean_text breakdown method model =
     ''\<newline>## '' @ stamp @
     ''\<newline>**Audio:** ['' @ ''['' @ audio_name @ '']'' @ '']'' @
     ''\<newline>**Transcription:** '' @ method @ '' | **Breakdown:** '' @ model @
     ''\<newline>\<newline>**Raw Transcription:**\<newline>> '' @ raw_text @
     ''\<newline>\<newline>**Cleaned:**\<newline>'' @ clean_text @
     ''\<newline>\<newline>**Tasks:**\<newline>'' @ breakdown @
     ''\<newline>\<newline>---\<newline>''"

definition append_capture :: "env \<Rightarrow> path \<Rightarrow> string \<Rightarrow> string \<Rightarrow> string \<Rightarrow> string \<Rightarrow> string \<Rightarrow> world \<Rightarrow> (exn + unit) \<times> world" where
  "append_capture e p raw_text clean_text breakdown method model w =
     (let entry = capture_entry (strftime_minute (datetime_now e NowCapture)) (name p) raw_text clean_text
                    breakdown method model
      in io e AppendCapture () (\<lambda>w. w\<lparr>capture_md := capture_md w @ [entry]\<rparr>) w)"

definition set_duration :: "string \<Rightarrow> rat \<Rightarrow> pstate \<Rightarrow> (exn + unit) \<times> pstate" where
  "set_duration key v = set_metrics (\<lambda>m. m\<lparr>durations_sec := AList.update key v (durations_sec m)\<rparr>)"

text \<open>Lines 68--79 of \<open>process\<close>: the end of a raw-only run.\<close>

definition raw_only_tail :: "config \<Rightarrow> env \<Rightarrow> path \<Rightarrow> string \<Rightarrow> string \<Rightarrow> pstate \<Rightarrow> (exn + bool) \<times> pstate" where
  "raw_only_tail cfg e p sdir method =
     bindE (lift (archive_audio cfg e p)) (\<lambda>archived_path.
     bindE (set_metrics (\<lambda>m. m\<lparr>archived_audio_path := Some archived_path,
                                  breakdown_model := Some ''raw_only'',
                                  status := ''success''\<rparr>)) (\<lambda>u.
     bindE (set_duration ''total'' (elapsed e PcRawTotal PcT0)) (\<lambda>u.
     bindE (write_session_metadata e WriteSessionMeta sdir) (\<lambda>u.
     bindE (append_metrics e AppendMetrics) (\<lambda>u.
     bindE (lift (log_event cfg e p method ''raw_only'')) (\<lambda>u.
     returnE True))))))"

text \<open>Lines 94--109: the breakdown stage; it yields the breakdown text and the model label.\<close>

definition breakdown_stage :: "config \<Rightarrow> env \<Rightarrow> bool \<Rightarrow> string \<Rightarrow> string \<Rightarrow> pstate \<Rightarrow> (exn + string \<times> string) \<times> pstate" where
  "breakdown_stage cfg e clean_only_flag sdir clean_text =
     (if clean_only_flag
      then bindE (set_metrics (\<lambda>m. m\<lparr>breakdown_model := Some ''skipped_clean_only''\<rparr>)) (\<lambda>u.
           returnE (''_Skipped due to --clean-only mode._'', ''skipped_clean_only''))
      else bindE (lift (breakdown_tasks cfg e clean_text)) (\<lambda>(breakdown, model_used).
           bindE (set_duration ''breakdown'' (elapsed e PcBreakdownEnd PcBreakdownStart)) (\<lambda>u.
           bindE (set_metrics (\<lambda>m. m\<lparr>breakdown_model := Some model_used\<rparr>)) (\<lambda>u.
           bindE (lift (write_text e WriteTasks sdir ''tasks_breakdown.md'' breakdown)) (\<lambda>breakdown_path.
           bindE (set_metrics (\<lambda>m. m\<lparr>tasks_path := Some breakdown_path\<rparr>)) (\<lambda>u.
           returnE (breakdown, model_used)))))))"

text \<open>Lines 111--138: capture entry, archive, and the records of a successful run.\<close>

definition capture_and_finish :: "config \<Rightarrow> env \<Rightarrow> path \<Rightarrow> string \<Rightarrow> string \<Rightarrow> string \<Rightarrow> string \<Rightarrow> string \<Rightarrow> string \<Rightarrow> pstate \<Rightarrow> (exn + bool) \<times> pstate" where
  "capture_and_finish cfg e p sdir raw_text clean_text breakdown method model_used =
     bindE (lift (append_capture e p raw_text clean_text breakdown method model_used)) (\<lambda>u.
     bindE (set_duration ''capture_write'' (elapsed e PcCaptureEnd PcCaptureStart)) (\<lambda>u.
     bindE (lift (archive_audio cfg e p)) (\<lambda>archived_path.
     bindE (set_metrics (\<lambda>m. m\<lparr>archived_audio_path := Some archived_path, status := ''success''\<rparr>)) (\<lambda>u.
     bindE (set_duration ''total'' (elapsed e PcTotal PcT0)) (\<lambda>u.
     bindE (write_session_metadata e WriteSessionMeta sdir) (\<lambda>u.
     bindE (append_metrics e AppendMetrics) (\<lambda>u.
     bindE (lift (log_event cfg e p method model_used)) (\<lambda>u.
     returnE True))))))))"

text \<open>Lines 55--66: step 1, transcription and the two copies of the raw transcript.\<close>

definition stage_transcribe :: "config \<Rightarrow> env \<Rightarrow> path \<Rightarrow> string \<Rightarrow> pstate \<Rightarrow> (exn + string \<times> string) \<times> pstate" where
  "stage_transcribe cfg e p sdir =
     bindE (lift (transcribe e p)) (\<lambda>(raw_text, method).
     bindE (set_duration ''transcription'' (elapsed e PcTranscribed PcT0)) (\<lambda>u.
     bindE (set_metrics (\<lambda>m. m\<lparr>transcription_method := Some method\<rparr>)) (\<lambda>u.
     bindE (lift (save_raw_transcript cfg e p raw_text sdir)) (\<lambda>raw_path.
     bindE (set_metrics (\<lambda>m. m\<lparr>raw_transcript_path := Some raw_path,
                                  raw_chars := Some (length raw_text),
                                  raw_words := Some (length (py_split raw_text))\<rparr>)) (\<lambda>u.
     returnE (raw_text, method))))))"

text \<open>
  Lines 81--92: step 2, cleanup and its metrics. \<open>len(clean_text) / max(1, len(raw_text))\<close>
  divides two \<open>int\<close>s, which gives the double nearest to the quotient; the divisor is at
  least 1.
\<close>

definition stage_cleanup :: "config \<Rightarrow> env \<Rightarrow> string \<Rightarrow> string \<Rightarrow> pstate \<Rightarrow> (exn + string) \<times> pstate" where
  "stage_cleanup cfg e sdir raw_text =
     bindE (lift (cleanup_transcription cfg e raw_text)) (\<lambda>clean_text.
     bindE (set_duration ''cleanup'' (elapsed e PcCleanupEnd PcCleanupStart)) (\<lambda>u.
     bindE (set_metrics (\<lambda>m. m\<lparr>clean_chars := Some (length clean_text),
                                  clean_words := Some (length (py_split clean_text)),
                                  compression_ratio :=
                                    Some (py_round (nearest_double (of_nat (length clean_text) /
                                                      of_nat (max 1 (length raw_text)))) 4)\<rparr>)) (\<lambda>u.
     bindE (lift (write_text e WriteCleaned sdir ''cleaned_transcript.txt'' clean_text)) (\<lambda>clean_path.
     bindE (set_metrics (\<lambda>m. m\<lparr>clean_transcript_path := Some clean_path\<rparr>)) (\<lambda>u.
     returnE clean_text)))))"

text \<open>Lines 55--138: the body of the \<open>try\<close> statement.\<close>

definition try_body :: "config \<Rightarrow> env \<Rightarrow> path \<Rightarrow> bool \<Rightarrow> bool \<Rightarrow> string \<Rightarrow> pstate \<Rightarrow> (exn + bool) \<times> pstate" where
  "try_body cfg e p raw_only_flag clean_only_flag sdir =
     bindE (stage_transcribe cfg e p sdir) (\<lambda>(raw_text, method).
     if raw_only_flag then raw_only_tail cfg e p sdir method
     else
     bindE (stage_cleanup cfg e sdir raw_text) (\<lambda>clean_text.
     bindE (breakdown_stage cfg e clean_only_flag sdir clean_text) (\<lambda>(breakdown, model_used).
     capture_and_finish cfg e p sdir raw_text clean_text breakdown method model_used)))"

text \<open>Lines 139--146: the \<open>except Exception\<close> handler.\<close>

definition on_exception :: "env \<Rightarrow> string \<Rightarrow> exn \<Rightarrow> pstate \<Rightarrow> (exn + bool) \<times> pstate" where
  "on_exception e sdir exc =
     bindE (set_metrics (\<lambda>m. m\<lparr>status := ''failed'', error := Some (exn_str exc)\<rparr>)) (\<lambda>u.
     bindE (set_duration ''total'' (elapsed e PcHandlerTotal PcT0)) (\<lambda>u.
     bindE (write_session_metadata e HandlerWriteSessionMeta sdir) (\<lambda>u.
     bindE (append_metrics e HandlerAppendMetrics) (\<lambda>u.
     returnE False))))"

definition initial_metrics :: "config \<Rightarrow> path \<Rightarrow> bool \<Rightarrow> bool \<Rightarrow> string \<Rightarrow> datetime \<Rightarrow> string \<Rightarrow> run_record" where
  "initial_metrics cfg p raw_only_flag clean_only_flag sid started_at sdir =
     \<lparr>session_id = sid, timestamp = isoformat started_at, audio_file = name p,
      audio_path = path_str p, raw_only = raw_only_flag, clean_only = clean_only_flag,
      status = ''started'', durations_sec = [], transcription_method = None,
      breakdown_model = None, capture_file_key = capture_file cfg, session_dir = sdir,
      raw_transcript_path = None, raw_chars = None, raw_words = None,
      archived_audio_path = None, clean_chars = None, clean_words = None,
      compression_ratio = None, clean_transcript_path = None, tasks_path = None,
      error = None\<rparr>"

text \<open>
  \<open>AudioProcessor.process\<close>. The result is the exception that leaves the method, or the
  boolean it returns, together with the world afterwards. Console output is not modelled.
\<close>

definition process :: "config \<Rightarrow> env \<Rightarrow> path \<Rightarrow> bool \<Rightarrow> bool \<Rightarrow> world \<Rightarrow> (exn + bool) \<times> world" where
  "process cfg e p raw_only_flag clean_only_flag w =
     (if raw_only_flag \<and> clean_only_flag
      then (Inl (ValueError ''raw_only and clean_only cannot both be true''), w)
      else
        (let started_at = datetime_now e NowStart;
             sid = make_session_id p started_at;
             sdir = join (sessions_dir cfg) sid
         in case mkdir e MkSessionDir sdir w of
              (Inl x, w1) \<Rightarrow> (Inl x, w1)
            | (Inr u, w1) \<Rightarrow>
                (case try_body cfg e p raw_only_flag clean_only_flag sdir
                        (initial_metrics cfg p raw_only_flag clean_only_flag sid started_at sdir, w1) of
                   (Inr b, s) \<Rightarrow> (Inr b, snd s)
                 | (Inl exc, s) \<Rightarrow> (case on_exception e sdir exc s of (r, s') \<Rightarrow> (r, snd s')))))"

section \<open>The metrics report (metrics_report.py)\<close>

text \<open>
  The rows are the records of the metrics log. Python's \<open>/\<close> raises
  \<open>ZeroDivisionError\<close> on a zero divisor; \<open>_avg\<close> is modelled with that failure written
  out, so that its absence is a property of the code and not of the model.
\<close>

definition truediv :: "rat \<Rightarrow> rat \<Rightarrow> exn + rat" where
  "truediv a b = (if b = 0 then Inl (ZeroDivisionError ''division by zero'') else Inr (a / b))"

definition avg :: "rat list \<Rightarrow> exn + rat" where
  "avg values = (if values \<noteq> [] then truediv (sum_list values) (of_nat (length values)) else Inr 0)"

record report =
  total_runs :: nat
  successful_runs :: nat
  failed_runs :: nat
  raw_only_runs :: nat
  avg_total :: rat
  avg_cleanup :: "rat option"
  avg_breakdown :: "rat option"
  avg_compression :: "rat option"

definition duration_or_zero :: "run_record \<Rightarrow> string \<Rightarrow> rat" where
  \<comment> \<open>\<open>float(r.get("durations_sec", {}).get(key, 0.0))\<close>\<close>
  "duration_or_zero r key = (case map_of (durations_sec r) key of None \<Rightarrow> 0 | Some v \<Rightarrow> v)"

definition avg_if_any :: "rat list \<Rightarrow> exn + rat option" where
  \<comment> \<open>the lines printed under \<open>if cleanup:\<close>, \<open>if breakdown:\<close>, \<open>if compression:\<close>\<close>
  "avg_if_any values =
     (if values \<noteq> [] then (case avg values of Inl x \<Rightarrow> Inl x | Inr a \<Rightarrow> Inr (Some a)) else Inr None)"

definition main_report :: "run_record list \<Rightarrow> exn + report option" where
  "main_report rows =
     (if rows = [] then Inr None
      else
        (let success = filter (\<lambda>r. status r = ''success'') rows;
             failed = filter (\<lambda>r. status r = ''failed'') rows;
             raw_only_rows = filter (\<lambda>r. raw_only r \<and> status r = ''success'') rows;
             totals = map (\<lambda>r. duration_or_zero r ''total'') success;
             cleanup = List.map_filter (\<lambda>r. map_of (durations_sec r) ''cleanup'') success;
             breakdown = List.map_filter (\<lambda>r. map_of (durations_sec r) ''breakdown'') success;
             compression = List.map_filter compression_ratio success
         in case avg totals of Inl x \<Rightarrow> Inl x | Inr a_total \<Rightarrow>
            (case avg_if_any cleanup of Inl x \<Rightarrow> Inl x | Inr a_cleanup \<Rightarrow>
            (case avg_if_any breakdown of Inl x \<Rightarrow> Inl x | Inr a_breakdown \<Rightarrow>
            (case avg_if_any compression of Inl x \<Rightarrow> Inl x | Inr a_compression \<Rightarrow>
               Inr (Some \<lparr>total_runs = length rows, successful_runs = length success,
                          failed_runs = length failed, raw_only_runs = length raw_only_rows,
                          avg_total = a_total, avg_cleanup = a_cleanup,
                          avg_breakdown = a_breakdown, avg_compression = a_compression\<rparr>))))))"

text \<open>
  The phrase set as the specification lists it (the source lists the same phrases in
  another order).
\<close>

definition routing_phrases_spec :: "string list" where
  "routing_phrases_spec =
     [''break down'', ''step by step'', ''depends on'', ''blocked by'', ''sequence'', ''plan'',
      ''what should i do'', ''what's the best way'']"

section \<open>Example inputs\<close>

definition example_world :: world where
  "example_world =
     \<lparr>local_llm_checked = False, calls = [], dirs = [], files = [], capture_md = [],
      metrics_jsonl = [], events_jsonl = [], audio_files = [''/vault/audio/memo.m4a'']\<rparr>"

definition failed_row :: run_record where
  "failed_row =
     \<lparr>session_id = ''20260307-090501-memo'', timestamp = ''2026-03-07T09:05:01'',
      audio_file = ''memo.m4a'', audio_path = ''/vault/audio/memo.m4a'', raw_only = False,
      clean_only = False, status = ''failed'',
      durations_sec = [(''transcription'', 3 / 2), (''total'', 2)],
      transcription_method = Some ''whisper_local'', breakdown_model = None,
      capture_file_key = ''/vault/capture.md'',
      session_dir = ''/vault/sessions/20260307-090501-memo'',
      raw_transcript_path = None, raw_chars = None, raw_words = None,
      archived_audio_path = None, clean_chars = None, clean_words = None,
      compression_ratio = None, clean_transcript_path = None, tasks_path = None,
      error = Some ''boom''\<rparr>"

definition example_config :: config where
  "example_config =
     \<lparr>vault_path = ''/vault'', ANTHROPIC_API_KEY = Some ''sk-test'', LOCAL_LLM_RETRIES = 2,
      LOCAL_LLM_RETRY_BACKOFF_SEC = Finite 2,
      USE_CLAUDE_FOR_COMPLEX = True, ANONYMIZE_FOR_CLAUDE = True\<rparr>"

definition example_time :: datetime where
  "example_time = \<lparr>year = 2026, month = 3, day = 7, hour = 9, minute = 5, second = 1, microsecond = 0\<rparr>"

definition example_path :: path where
  "example_path = \<lparr>parent = ''/vault/audio'', name = ''memo.m4a''\<rparr>"

text \<open>
  An environment in which every file operation works, the speech engine recognises two
  segments, and the local server fails twice (a refused connection, then blank content)
  before it answers.
\<close>

definition example_env :: env where
  "example_env =
     \<lparr>datetime_now = (\<lambda>s. example_time),
      perf_counter = (\<lambda>s. 0),
      io_error = (\<lambda>s. None),
      sleep_out_of_range = (\<lambda>x. x * 10 ^ 9 < - (2 ^ 63) \<or> 2 ^ 63 \<le> x * 10 ^ 9),
      whisper = (\<lambda>p. Inr ['' remember to'', ''call the bank '']),
      probe = None,
      post = (\<lambda>prompt attempt.
                if attempt = 1 then Raises (RequestException ''connection refused'')
                else if attempt = 2 then Content ''  ''
                else Content '' Remember to call the bank. ''),
      claude = (\<lambda>prompt. Inr [Some ''- [ ] Call the bank (~5m) #quick''])\<rparr>"

text \<open>The same, with a local server that never answers.\<close>

definition dead_env :: env where
  "dead_env =
     example_env\<lparr>post := (\<lambda>prompt attempt.
       if attempt = 3 then Raises (RequestException ''read timed out'')
       else Raises (RequestException ''connection refused''))\<rparr>"

section \<open>Vocabulary of the claims\<close>

text \<open>
  An attempt fails in a way the client retries: a \<open>requests\<close> exception or a
  \<open>ValueError\<close> (a body that is not JSON), or content that is empty after \<open>strip()\<close>.
  \<open>failure_exn\<close> is the exception such an attempt ends with.
\<close>

definition backend_failure :: "outcome \<Rightarrow> bool" where
  "backend_failure r = (case r of Raises x \<Rightarrow> retryable x | Content c \<Rightarrow> py_strip c = [])"

definition failure_exn :: "outcome \<Rightarrow> exn" where
  "failure_exn r = (case r of Raises x \<Rightarrow> x | Content c \<Rightarrow> ValueError ''Local LLM returned empty content'')"

text \<open>
  The vault of \<open>w'\<close> is that of \<open>w\<close>: directories, files, the three logs and the audio
  files are the same (the trace of calls and the probe flag may differ).
\<close>

definition same_vault :: "world \<Rightarrow> world \<Rightarrow> bool" where
  "same_vault w w' =
     (dirs w' = dirs w \<and> files w' = files w \<and> capture_md w' = capture_md w \<and>
      metrics_jsonl w' = metrics_jsonl w \<and> events_jsonl w' = events_jsonl w \<and>
      audio_files w' = audio_files w)"

text \<open>
  The exceptions that come from the local server (from the probe or from an attempt)
  carry a message: \<open>str(exc)\<close> is not empty.
\<close>

definition server_errors_have_text :: "env \<Rightarrow> bool" where
  "server_errors_have_text e =
     ((\<forall>x. probe e = Some x \<longrightarrow> exn_str x \<noteq> []) \<and>
      (\<forall>pr i x. post e pr i = Raises x \<longrightarrow> exn_str x \<noteq> []))"

text \<open>
  The end of a capture entry whose Tasks section is the clean-only placeholder: the
  \<open>**Tasks:**\<close> heading, the placeholder text, and the closing rule.
\<close>

definition tasks_placeholder_tail :: string where
  "tasks_placeholder_tail =
     ''\<newline>\<newline>**Tasks:**\<newline>_Skipped due to --clean-only mode._\<newline>\<newline>---\<newline>''"

text \<open>
  The \<open>float\<close> \<open>q\<close> is \<open>x\<close> rounded to \<open>nd\<close> decimal places: \<open>q\<close> is the double nearest to
  a decimal number \<open>k / 10^nd\<close> that is at most half a unit of the last place away from
  \<open>x\<close> (it is the \<open>float\<close> that Python writes with the digits of \<open>k / 10^nd\<close>).
\<close>

definition rounded_to :: "nat \<Rightarrow> rat \<Rightarrow> rat \<Rightarrow> bool" where
  "rounded_to nd x q =
     (\<exists>k::int. q = nearest_double (of_int k / 10 ^ nd) \<and>
                \<bar>of_int k / 10 ^ nd - x\<bar> \<le> 1 / (2 * 10 ^ nd))"

text \<open>
  The number of words of a text, in the words of the specification: the number of
  places where a word begins, that is, of characters that are not whitespace and stand
  at the start of the text or after a whitespace character.
\<close>

definition word_count_spec :: "string \<Rightarrow> nat" where
  "word_count_spec s =
     length (filter (\<lambda>i. \<not> isspace (s ! i) \<and> (i = 0 \<or> isspace (s ! (i - 1)))) [0..<length s])"

text \<open>
  Texts of 61 and of 60 words that contain none of the routing phrases, and 61 words
  separated by no-break spaces.
\<close>

definition sixty_one_words :: string where
  "sixty_one_words = concat (replicate 60 ''memo '') @ ''memo''"

definition sixty_words :: string where
  "sixty_words = concat (replicate 59 ''memo '') @ ''memo''"

definition sixty_one_words_nbsp :: string where
  "sixty_one_words_nbsp = concat (replicate 60 (''memo'' @ [CHR 0xA0])) @ ''memo''"

text \<open>
  The configuration of \<open>example_config\<close> with a negative back-off time
  (\<open>LOCAL_LLM_RETRY_BACKOFF_SEC=-1\<close>), and the environment of \<open>example_env\<close> whose local
  server answers the first completion request but not the reachability probe.
\<close>

definition negative_backoff_config :: config where
  "negative_backoff_config = example_config\<lparr>LOCAL_LLM_RETRY_BACKOFF_SEC := Finite (- 1)\<rparr>"

definition probe_fail_env :: env where
  "probe_fail_env =
     example_env\<lparr>probe := Some (RequestException ''404 Client Error: Not Found''),
                  post := (\<lambda>prompt attempt. Content '' Remember to call the bank. '')\<rparr>"

text \<open>
  The environment of \<open>dead_env\<close> in which the append to the metrics log fails inside the
  exception handler, and the environment of \<open>example_env\<close> whose reachability probe
  raises an exception without a message.
\<close>

definition handler_fail_env :: env where
  "handler_fail_env =
     dead_env\<lparr>io_error := (\<lambda>s. if s = HandlerAppendMetrics
                                then Some (OSError ''[Errno 28] No space left on device'')
                                else None)\<rparr>"

definition silent_probe_env :: env where
  "silent_probe_env = example_env\<lparr>probe := Some (RequestException [])\<rparr>"

text \<open>
  The environment of \<open>example_env\<close> in which the append to the monthly event log fails
  (the file is not writable), every other file operation working.
\<close>

definition log_fail_env :: env where
  "log_fail_env =
     example_env\<lparr>io_error := (\<lambda>s. if s = LogEvent then Some (OSError ''[Errno 13] Permission denied'')
                                   else None)\<rparr>"

text \<open>
  An environment whose speech engine returns 100 characters and whose local server
  answers at once with 40 characters, and one with 160 and 63 characters.
\<close>

definition raw_100 :: string where
  "raw_100 = ''remember to call the bank before noon and then ask them about the new card and the old account fees.''"

definition clean_40 :: string where
  "clean_40 = ''Call the bank before noon about the card''"

definition ratio_env :: env where
  "ratio_env =
     example_env\<lparr>whisper := (\<lambda>p. Inr [raw_100]), post := (\<lambda>prompt attempt. Content clean_40)\<rparr>"

definition raw_160 :: string where
  "raw_160 = ''remember to call the bank before noon and then ask them about the new card and the old account fees and also book the dentist for next week if there is time now''"

definition clean_63 :: string where
  "clean_63 = ''Call the bank before noon about the card, then book the dentist''"

definition tie_env :: env where
  "tie_env =
     example_env\<lparr>whisper := (\<lambda>p. Inr [raw_160]), post := (\<lambda>prompt attempt. Content clean_63)\<rparr>"

section \<open>Tokens of a text\<close>

text \<open>
  The \<open>k\<close>-th sensitive term and its placeholder, in the order of the table.
\<close>

definition term_of :: "nat \<Rightarrow> string" where
  "term_of k = fst (ANONYMIZATION_MAP ! k)"

definition placeholder_of :: "nat \<Rightarrow> string" where
  "placeholder_of k = snd (ANONYMIZATION_MAP ! k)"

text \<open>
  A text cut into tokens: single characters, and occurrences of table entries. A token
  \<open>Tm k\<close> is rendered as the placeholder of entry \<open>k\<close> where \<open>A k\<close> holds and as its term
  otherwise, so that the strings between the passes of \<open>anonymize\<close> and \<open>deanonymize\<close>
  are all renderings of one token list.
\<close>

datatype tok = Ch char | Tm nat

fun render :: "(nat \<Rightarrow> bool) \<Rightarrow> tok list \<Rightarrow> string" where
  "render A [] = []"
| "render A (Ch c # ts) = c # render A ts"
| "render A (Tm k # ts) = (if A k then placeholder_of k else term_of k) @ render A ts"

definition find_term :: "string \<Rightarrow> nat option" where
  "find_term s = List.find (\<lambda>k. prefix (term_of k) s) [0..<length ANONYMIZATION_MAP]"

function tokenize :: "string \<Rightarrow> tok list" where
  "tokenize [] = []"
| "tokenize (c # cs) =
     (case find_term (c # cs) of
        None \<Rightarrow> Ch c # tokenize cs
      | Some k \<Rightarrow> Tm k # tokenize (drop (length (term_of k) - 1) cs))"
  by pat_completeness auto
termination
  by (relation "measure length") auto

text \<open>
  \<open>canonical s\<close>: at every position of \<open>s\<close>, a term that matches with the case of letters
  ignored matches exactly (every occurrence is spelled as in the table).
  \<open>placeholder_free s\<close>: no placeholder of the table occurs in \<open>s\<close>.
\<close>

fun canonical :: "string \<Rightarrow> bool" where
  "canonical [] = True"
| "canonical (c # cs) =
     (list_all (\<lambda>(t, p). ci_prefix t (c # cs) \<longrightarrow> prefix t (c # cs)) ANONYMIZATION_MAP \<and> canonical cs)"

fun placeholder_free :: "string \<Rightarrow> bool" where
  "placeholder_free [] = True"
| "placeholder_free (c # cs) =
     (list_all (\<lambda>(t, p). \<not> prefix p (c # cs)) ANONYMIZATION_MAP \<and> placeholder_free cs)"

text \<open>\<open>mismatch eq p x\<close>: \<open>p\<close> and \<open>x\<close> differ, with respect to \<open>eq\<close>, at a position both have.\<close>
fun mismatch :: "(char \<Rightarrow> char \<Rightarrow> bool) \<Rightarrow> string \<Rightarrow> string \<Rightarrow> bool" where
  "mismatch eq (p # ps) (x # xs) = (\<not> eq p x \<or> mismatch eq ps xs)"
| "mismatch eq ps xs = False"

definition ci_eq :: "char \<Rightarrow> char \<Rightarrow> bool" where
  "ci_eq p c = (lower_char p = lower_char c)"

definition letters :: "string \<Rightarrow> bool" where
  "letters s = list_all (\<lambda>c. c \<in> set (upper_letters @ lower_letters)) s"

definition wf_toks :: "tok list \<Rightarrow> bool" where
  "wf_toks toks = (\<forall>k. Tm k \<in> set toks \<longrightarrow> k < length ANONYMIZATION_MAP)"

abbreviation plain :: "nat \<Rightarrow> bool" where
  "plain \<equiv> (\<lambda>k. False)"

text \<open>
  \<open>nostray toks\<close>: in the plain rendering, a term matches (ignoring case) only where a
  token of that term starts. \<open>noph toks\<close>: in the plain rendering, no placeholder starts
  at a character token.
\<close>

fun nostray :: "tok list \<Rightarrow> bool" where
  "nostray [] = True"
| "nostray (tk # rest) =
     ((\<forall>i < length ANONYMIZATION_MAP. \<forall>n < length (render plain [tk]).
          (n = 0 \<and> tk = Tm i) \<or>
          \<not> ci_prefix (term_of i) (drop n (render plain [tk]) @ render plain rest)) \<and>
      nostray rest)"

fun noph :: "tok list \<Rightarrow> bool" where
  "noph [] = True"
| "noph (tk # rest) =
     ((\<forall>c. tk = Ch c \<longrightarrow>
          (\<forall>j < length ANONYMIZATION_MAP. \<not> prefix (placeholder_of j) (c # render plain rest))) \<and>
      noph rest)"

text \<open>The facts about the table that the proof uses, as one executable check.\<close>

definition table_ok :: bool where
  "table_ok =
     list_all (\<lambda>k.
        term_of k \<noteq> [] \<and> letters (term_of k) \<and>
        (case placeholder_of k of [] \<Rightarrow> False
         | b # q \<Rightarrow> b = CHR ''['' \<and> CHR ''['' \<notin> set q) \<and>
        list_all (\<lambda>i.
          list_all (\<lambda>n. mismatch ci_eq (term_of i) (drop n (placeholder_of k)))
            [0..<length (placeholder_of k)] \<and>
          list_all (\<lambda>n. (n = 0 \<and> k = i) \<or> mismatch (=) (term_of i) (drop n (term_of k)))
            [0..<length (term_of k)] \<and>
          list_all (\<lambda>n. (n = 0 \<and> k = i) \<or> mismatch (=) (placeholder_of i) (drop n (placeholder_of k)))
            [0..<length (placeholder_of k)] \<and>
          list_all (\<lambda>n. mismatch (=) (placeholder_of i) (drop n (term_of k)))
            [0..<length (term_of k)])
          [0..<length ANONYMIZATION_MAP])
       [0..<length ANONYMIZATION_MAP]"


text \<open>
  Whether pass \<open>k\<close> of \<open>anonymize\<close> finds its term, and the reverse map after \<open>n\<close> passes.
\<close>

definition found :: "tok list \<Rightarrow> nat \<Rightarrow> bool" where
  "found toks k = ci_search (term_of k) (render (\<lambda>j. j < k) toks)"

definition rmap_upto :: "tok list \<Rightarrow> nat \<Rightarrow> (string \<times> string) list" where
  "rmap_upto toks n =
     concat (map (\<lambda>k. if found toks k then [(placeholder_of k, term_of k)] else []) [0..<n])"

section \<open>Session identifiers: the code against the specification\<close>

lemma group_runs_dropWhile:
  "group_runs P (dropWhile (\<lambda>d. \<not> P d) xs) =
     (case group_runs P xs of [] \<Rightarrow> [] | g # gs \<Rightarrow> if P (hd g) then g # gs else gs)"
  by (induction xs) (auto split: list.splits)

lemma re_sub_runs_collapse: "re_sub_runs s = collapse_runs_spec s"
  by (induction s rule: re_sub_runs.induct)
     (auto simp: collapse_runs_spec_def group_runs_dropWhile split: list.splits)

lemma strip_where_spec: "strip_where (\<lambda>c. c = CHR ''-'') s = strip_separators_spec s"
  unfolding strip_where_def strip_separators_spec_def Let_def
  by (metis dropWhile_eq_drop rev_drop rev_rev_ident length_rev)

text \<open>
  C9. The session id is the second-granularity timestamp (\<open>YYYYMMDD-HHMMSS\<close>, so the
  microseconds of the start time do not matter), a separator, and the token derived from
  the filename stem: every run of characters outside \<open>[a-zA-Z0-9._-]\<close> collapsed to one
  \<open>-\<close>, leading and trailing \<open>-\<close> stripped, lowercased, and \<open>audio\<close> when nothing is left.
\<close>

theorem make_session_id_spec:
  "make_session_id p t = strftime_compact t @ ''-'' @ session_token_spec (stem p) \<and>
   make_session_id p (t\<lparr>microsecond := us\<rparr>) = make_session_id p t"
  by (simp add: make_session_id_def session_base_def session_token_spec_def
        re_sub_runs_collapse strip_where_spec strftime_compact_def)

theorem make_session_id_spec_witness:
  "make_session_id \<lparr>parent = ''/vault/audio'', name = ''My Memo (1)!!.m4a''\<rparr>
     \<lparr>year = 2026, month = 3, day = 7, hour = 9, minute = 5, second = 1, microsecond = 5\<rparr>
   = ''20260307-090501-my-memo-1''"
  using make_session_id_spec [of "\<lparr>parent = ''/vault/audio'', name = ''My Memo (1)!!.m4a''\<rparr>"
     "\<lparr>year = 2026, month = 3, day = 7, hour = 9, minute = 5, second = 1, microsecond = 5\<rparr>"
     "0::nat"]
  by (simp add: session_token_spec_def strip_separators_spec_def collapse_runs_spec_def
        strftime_compact_def zpad_def show_nat.simps digit_char_def stem_def rfind_dot_def
        allowed_def py_lower_def str_lower_char_def upper_letters_def lower_letters_def
        latin1_upper_def latin1_lower_def)

section \<open>Routing policy\<close>

lemma contains_iff: "contains p s \<longleftrightarrow> (\<exists>a b. s = a @ p @ b)"
proof (induction s)
  case Nil
  then show ?case by auto
next
  case (Cons c cs)
  show ?case
  proof
    assume "contains p (c # cs)"
    then consider "prefix p (c # cs)" | "contains p cs" by auto
    then show "\<exists>a b. c # cs = a @ p @ b"
    proof cases
      case 1
      then obtain b where "c # cs = p @ b" by (auto simp: prefix_def)
      then have "c # cs = [] @ p @ b" by simp
      then show ?thesis by blast
    next
      case 2
      with Cons obtain a b where "cs = a @ p @ b" by auto
      then have "c # cs = (c # a) @ p @ b" by simp
      then show ?thesis by blast
    qed
  next
    assume "\<exists>a b. c # cs = a @ p @ b"
    then obtain a b where ab: "c # cs = a @ p @ b" by auto
    show "contains p (c # cs)"
    proof (cases a)
      case Nil
      with ab have "prefix p (c # cs)" by (auto simp: prefix_def)
      then show ?thesis by simp
    next
      case (Cons x xs)
      with ab have "cs = xs @ p @ b" by simp
      with Cons.IH show ?thesis by auto
    qed
  qed
qed

text \<open>
  The pieces that \<open>split()\<close> returns are counted by their first characters. In the
  two lemmas the truth value \<open>b\<close>, or \<open>cur = []\<close>, says whether a word can begin at the
  first character of the rest of the text.
\<close>

lemma word_starts_Cons:
  "length (filter (\<lambda>i. \<not> isspace ((c # cs) ! i) \<and> (if i = 0 then b else isspace ((c # cs) ! (i - 1))))
              [0..<length (c # cs)]) =
   (if \<not> isspace c \<and> b then 1 else 0) +
   length (filter (\<lambda>i. \<not> isspace (cs ! i) \<and> (if i = 0 then isspace c else isspace (cs ! (i - 1))))
              [0..<length cs])"
proof -
  have up: "[0..<length (c # cs)] = 0 # map Suc [0..<length cs]"
    by (simp add: upt_conv_Cons map_Suc_upt del: upt_Suc)
  have "filter (\<lambda>i. \<not> isspace ((c # cs) ! i) \<and> (if i = 0 then b else isspace ((c # cs) ! (i - 1))))
          (map Suc [0..<length cs]) =
        map Suc (filter (\<lambda>i. \<not> isspace (cs ! i) \<and> (if i = 0 then isspace c else isspace (cs ! (i - 1))))
          [0..<length cs])"
    unfolding filter_map
    by (rule arg_cong [where f = "map Suc"], rule filter_cong) (auto simp: nth_Cons split: nat.splits)
  then show ?thesis unfolding up by simp
qed

lemma split_acc_length:
  "length (split_acc cur s) =
     (if cur = [] then 0 else 1) +
     length (filter (\<lambda>i. \<not> isspace (s ! i) \<and> (if i = 0 then cur = [] else isspace (s ! (i - 1))))
               [0..<length s])"
proof (induction s arbitrary: cur)
  case Nil
  show ?case by simp
next
  case (Cons c cs)
  show ?case
    unfolding word_starts_Cons split_acc.simps
    by (simp add: Cons.IH)
qed

lemma py_split_word_count: "length (py_split s) = word_count_spec s"
proof -
  have "(\<lambda>i. \<not> isspace (s ! i) \<and> (if i = 0 then ([]::string) = [] else isspace (s ! (i - 1)))) =
        (\<lambda>i. \<not> isspace (s ! i) \<and> (i = 0 \<or> isspace (s ! (i - 1))))"
    by auto
  then show ?thesis
    by (simp add: py_split_def split_acc_length word_count_spec_def)
qed

text \<open>
  C5. The routing decision is a function of the configuration and the text alone. It is
  false when remote breakdown is switched off or there is no (non-empty) API key;
  otherwise it is true exactly when the text has more than 60 words, counted as the
  specification says (\<open>word_count_spec\<close>, which is the number of pieces that \<open>split()\<close>
  returns), or its lowercased form contains one of the eight phrases.
\<close>

theorem should_use_claude_spec:
  "should_use_claude cfg text =
     (if \<not> USE_CLAUDE_FOR_COMPLEX cfg \<or> ANTHROPIC_API_KEY cfg = None \<or> ANTHROPIC_API_KEY cfg = Some []
      then False
      else 60 < word_count_spec text \<or>
           (\<exists>p \<in> set routing_phrases_spec. \<exists>a b. py_lower text = a @ p @ b))"
  by (auto simp: should_use_claude_def anthropic_client_def contains_iff list_ex_iff
        phrases_def routing_phrases_spec_def Let_def py_split_word_count split: option.splits)

theorem should_use_claude_spec_witness:
  "should_use_claude example_config ''Please PLAN the launch'' \<and>
   \<not> should_use_claude example_config ''buy milk'' \<and>
   \<not> should_use_claude (example_config\<lparr>ANTHROPIC_API_KEY := None\<rparr>) ''Please PLAN the launch'' \<and>
   should_use_claude example_config sixty_one_words \<and>
   \<not> should_use_claude example_config sixty_words \<and>
   should_use_claude example_config sixty_one_words_nbsp \<and>
   \<not> should_use_claude (example_config\<lparr>USE_CLAUDE_FOR_COMPLEX := False\<rparr>) sixty_one_words \<and>
   \<not> should_use_claude (example_config\<lparr>ANTHROPIC_API_KEY := Some []\<rparr>) sixty_one_words"
proof -
  have w: "word_count_spec ''Please PLAN the launch'' = 4" "word_count_spec ''buy milk'' = 2"
    "word_count_spec sixty_one_words = 61" "word_count_spec sixty_words = 60"
    "word_count_spec sixty_one_words_nbsp = 61"
    by code_simp+
  have p: "\<exists>p \<in> set routing_phrases_spec. contains p (py_lower ''Please PLAN the launch'')"
    "\<not> (\<exists>p \<in> set routing_phrases_spec. contains p (py_lower ''buy milk''))"
    "\<not> (\<exists>p \<in> set routing_phrases_spec. contains p (py_lower sixty_words))"
    by code_simp+
  have c: "USE_CLAUDE_FOR_COMPLEX example_config" "ANTHROPIC_API_KEY example_config = Some ''sk-test''"
    by (simp_all add: example_config_def)
  from should_use_claude_spec [of example_config "''Please PLAN the launch''"]
       should_use_claude_spec [of example_config "''buy milk''"]
       should_use_claude_spec [of "example_config\<lparr>ANTHROPIC_API_KEY := None\<rparr>" "''Please PLAN the launch''"]
       should_use_claude_spec [of example_config sixty_one_words]
       should_use_claude_spec [of example_config sixty_words]
       should_use_claude_spec [of example_config sixty_one_words_nbsp]
       should_use_claude_spec [of "example_config\<lparr>USE_CLAUDE_FOR_COMPLEX := False\<rparr>" sixty_one_words]
       should_use_claude_spec [of "example_config\<lparr>ANTHROPIC_API_KEY := Some []\<rparr>" sixty_one_words]
  show ?thesis
    using p unfolding contains_iff by (simp add: w c)
qed

section \<open>The report's averages\<close>

lemma avg_total: "avg values = Inr (if values = [] then 0 else sum_list values / of_nat (length values))"
  by (simp add: avg_def truediv_def)

lemma main_report_total: "\<exists>r. main_report rows = Inr r"
  by (simp add: main_report_def Let_def avg_total avg_if_any_def)

text \<open>
  C10. \<open>_avg\<close> never raises: it returns the sum divided by the length for a non-empty
  list and 0 for the empty list. Hence the report never fails with a division by zero,
  and with rows but no successful run it prints the average total 0.
\<close>

theorem avg_never_divides_by_zero:
  "avg values = Inr (if values = [] then 0 else sum_list values / of_nat (length values)) \<and>
   (\<exists>r. main_report rows = Inr r) \<and>
   (rows \<noteq> [] \<and> (\<forall>r \<in> set rows. status r \<noteq> ''success'') \<longrightarrow>
      (\<exists>rep. main_report rows = Inr (Some rep) \<and> successful_runs rep = 0 \<and> avg_total rep = 0))"
proof -
  have none: "filter (\<lambda>r. status r = ''success'') rows = []"
    if "\<forall>r \<in> set rows. status r \<noteq> ''success''"
    using that by (induction rows) auto
  show ?thesis
    by (auto simp: avg_total main_report_total main_report_def Let_def avg_if_any_def
          List.map_filter_simps none)
qed

theorem avg_never_divides_by_zero_witness:
  "avg [3 / 2, 5 / 2] = Inr 2 \<and> avg [] = Inr 0 \<and>
   (\<exists>rep. main_report [failed_row] = Inr (Some rep) \<and> successful_runs rep = 0 \<and> avg_total rep = 0)"
  using avg_never_divides_by_zero [of "[3 / 2, 5 / 2]" "[failed_row]"]
        avg_never_divides_by_zero [of "[]" "[failed_row]"]
  by (simp add: failed_row_def)

section \<open>The pipeline\<close>

text \<open>
  C7. With both \<open>raw_only\<close> and \<open>clean_only\<close> set, \<open>process\<close> raises the configuration
  error at once and the world is left exactly as it was: no session directory, no call to
  the speech engine or any other collaborator, no line in the metrics log, and the audio
  file where it was.
\<close>

theorem process_conflicting_flags:
  "process cfg e p True True w =
     (Inl (ValueError ''raw_only and clean_only cannot both be true''), w)"
  by (simp add: process_def)

theorem process_conflicting_flags_witness:
  "process example_config example_env example_path True True example_world =
     (Inl (ValueError ''raw_only and clean_only cannot both be true''), example_world)"
  using process_conflicting_flags [of example_config example_env example_path example_world]
  by simp

section \<open>Retries of the local client\<close>

lemma attempt_result_failure:
  "backend_failure r \<Longrightarrow> attempt_result r = Inl (failure_exn r) \<and> retryable (failure_exn r)"
  by (cases r) (auto simp: backend_failure_def failure_exn_def attempt_result_def Let_def)

lemma completion_loop_success:
  assumes "\<forall>i. a \<le> i \<and> i < a + k \<longrightarrow> backend_failure (req i)"
    and "req (a + k) = Content c" and "py_strip c \<noteq> []"
    and "a + k \<le> attempts" and "k < n"
    and "time_sleep e backoff = Inr ()"
  shows "fst (completion_loop e backoff req operation attempts n a lst w) = Inr (py_strip c)"
  using assms(1-5)
proof (induction k arbitrary: n a lst w)
  case 0
  then obtain m where "n = Suc m" by (cases n) auto
  with 0 show ?case by (simp add: attempt_result_def Let_def)
next
  case (Suc k)
  then obtain m where n: "n = Suc m" by (cases n) auto
  from Suc.prems have f: "backend_failure (req a)" by simp
  have lt: "\<not> attempts \<le> a" using Suc.prems by simp
  have "fst (completion_loop e backoff req operation attempts m (a + 1) (Some (failure_exn (req a)))
              (w\<lparr>calls := calls w @ [LocalPost operation a]\<rparr>)) = Inr (py_strip c)"
    using Suc.prems n by (intro Suc.IH) auto
  with f lt n show ?case
    by (simp add: attempt_result_failure Let_def assms(6))
qed

lemma completion_loop_exhausted:
  assumes "\<forall>i. a \<le> i \<and> i \<le> attempts \<longrightarrow> backend_failure (req i)"
    and "a \<le> attempts" and "attempts - a < n"
    and "time_sleep e backoff = Inr ()"
  shows "fst (completion_loop e backoff req operation attempts n a lst w) =
           Inl (terminal_error operation attempts (Some (failure_exn (req attempts))))"
  using assms(1-3)
proof (induction n arbitrary: a lst w)
  case 0
  then show ?case by simp
next
  case (Suc n)
  from Suc.prems have f: "backend_failure (req a)" by simp
  show ?case
  proof (cases "attempts \<le> a")
    case True
    with Suc.prems have "a = attempts" by simp
    with f show ?thesis by (simp add: attempt_result_failure Let_def)
  next
    case False
    have "fst (completion_loop e backoff req operation attempts n (a + 1) (Some (failure_exn (req a)))
                (w\<lparr>calls := calls w @ [LocalPost operation a]\<rparr>)) =
            Inl (terminal_error operation attempts (Some (failure_exn (req attempts))))"
      using Suc.prems False by (intro Suc.IH) auto
    with f False show ?thesis by (simp add: attempt_result_failure Let_def assms(4))
  qed
qed

lemma check_local_llm_ok:
  "local_llm_checked w \<or> probe e = None \<Longrightarrow> fst (check_local_llm e w) = Inr ()"
  by (auto simp: check_local_llm_def)

text \<open>
  C4, as amended. Configured with \<open>N \<ge> 0\<close> retries, once the reachability probe has
  passed (now or earlier) and with a back-off time that \<open>time.sleep\<close> accepts, the client
  makes up to \<open>N + 1\<close> attempts. If the first \<open>k \<le> N\<close> attempts fail in a retryable way
  (network or HTTP error, or whitespace-only content) and the next one returns content
  that is non-empty after trimming, the call returns that trimmed content. If all
  \<open>N + 1\<close> attempts fail, it raises a \<open>RuntimeError\<close> whose text holds the operation name,
  the number of attempts and the text of the last failure.
\<close>

theorem local_chat_completion_retries:
  assumes "0 \<le> LOCAL_LLM_RETRIES cfg" and "local_llm_checked w \<or> probe e = None"
    and "time_sleep e (LOCAL_LLM_RETRY_BACKOFF_SEC cfg) = Inr ()"
  shows "(\<forall>k c. k \<le> nat (LOCAL_LLM_RETRIES cfg) \<and>
                 (\<forall>i. 1 \<le> i \<and> i \<le> k \<longrightarrow> backend_failure (post e prompt i)) \<and>
                 post e prompt (k + 1) = Content c \<and> py_strip c \<noteq> []
            \<longrightarrow> fst (local_chat_completion cfg e prompt operation w) = Inr (py_strip c)) \<and>
         ((\<forall>i. 1 \<le> i \<and> i \<le> nat (LOCAL_LLM_RETRIES cfg) + 1 \<longrightarrow> backend_failure (post e prompt i))
            \<longrightarrow> fst (local_chat_completion cfg e prompt operation w) =
                  Inl (RuntimeError (''Local LLM '' @ operation @ '' failed after '' @
                         show_nat (nat (LOCAL_LLM_RETRIES cfg) + 1) @ '' attempts: '' @
                         exn_str (failure_exn (post e prompt (nat (LOCAL_LLM_RETRIES cfg) + 1))))))"
proof -
  have att: "attempts_of cfg = nat (LOCAL_LLM_RETRIES cfg) + 1"
    using assms(1) by (simp add: attempts_of_def nat_add_distrib)
  obtain w1 where chk: "check_local_llm e w = (Inr (), w1)"
    using check_local_llm_ok [OF assms(2)] by (cases "check_local_llm e w") auto
  have lcc: "local_chat_completion cfg e prompt operation w =
        completion_loop e (LOCAL_LLM_RETRY_BACKOFF_SEC cfg) (post e prompt) operation
          (attempts_of cfg) (attempts_of cfg) 1 None w1"
    by (simp add: local_chat_completion_def chk)
  show ?thesis
  proof (intro conjI allI impI)
    fix k c
    assume h: "k \<le> nat (LOCAL_LLM_RETRIES cfg) \<and>
                 (\<forall>i. 1 \<le> i \<and> i \<le> k \<longrightarrow> backend_failure (post e prompt i)) \<and>
                 post e prompt (k + 1) = Content c \<and> py_strip c \<noteq> []"
    have "fst (completion_loop e (LOCAL_LLM_RETRY_BACKOFF_SEC cfg) (post e prompt) operation
                 (attempts_of cfg) (attempts_of cfg) 1 None w1)
            = Inr (py_strip c)"
      using h att assms(3) by (intro completion_loop_success [where k = k]) auto
    then show "fst (local_chat_completion cfg e prompt operation w) = Inr (py_strip c)"
      by (simp add: lcc)
  next
    assume h: "\<forall>i. 1 \<le> i \<and> i \<le> nat (LOCAL_LLM_RETRIES cfg) + 1 \<longrightarrow> backend_failure (post e prompt i)"
    have "fst (completion_loop e (LOCAL_LLM_RETRY_BACKOFF_SEC cfg) (post e prompt) operation
                 (attempts_of cfg) (attempts_of cfg) 1 None w1)
            = Inl (terminal_error operation (attempts_of cfg) (Some (failure_exn (post e prompt (attempts_of cfg)))))"
      using h att assms(3) by (intro completion_loop_exhausted) auto
    then show "fst (local_chat_completion cfg e prompt operation w) =
                  Inl (RuntimeError (''Local LLM '' @ operation @ '' failed after '' @
                         show_nat (nat (LOCAL_LLM_RETRIES cfg) + 1) @ '' attempts: '' @
                         exn_str (failure_exn (post e prompt (nat (LOCAL_LLM_RETRIES cfg) + 1)))))"
      by (simp add: lcc att terminal_error_def str_last_error_def)
  qed
qed

theorem local_chat_completion_retries_witness:
  "fst (local_chat_completion example_config example_env ''hi'' ''cleanup'' example_world)
     = Inr ''Remember to call the bank.'' \<and>
   fst (local_chat_completion example_config dead_env ''hi'' ''cleanup'' example_world)
     = Inl (RuntimeError ''Local LLM cleanup failed after 3 attempts: read timed out'')"
proof -
  have a: "0 \<le> LOCAL_LLM_RETRIES example_config" by (simp add: example_config_def)
  have b: "local_llm_checked example_world \<or> probe example_env = None"
    by (simp add: example_env_def)
  have b': "local_llm_checked example_world \<or> probe dead_env = None"
    by (simp add: example_env_def dead_env_def)
  have sl: "time_sleep example_env (LOCAL_LLM_RETRY_BACKOFF_SEC example_config) = Inr ()"
    by (simp add: time_sleep_def example_config_def example_env_def)
  have sl': "time_sleep dead_env (LOCAL_LLM_RETRY_BACKOFF_SEC example_config) = Inr ()"
    by (simp add: time_sleep_def example_config_def example_env_def dead_env_def)
  have k: "(2::nat) \<le> nat (LOCAL_LLM_RETRIES example_config)" by (simp add: example_config_def)
  have s: "py_strip '' Remember to call the bank. '' = ''Remember to call the bank.''"
    by (simp add: py_strip_def strip_where_def isspace_def)
  have f: "\<forall>i. 1 \<le> i \<and> i \<le> (2::nat) \<longrightarrow> backend_failure (post example_env ''hi'' i)"
    by (auto simp: example_env_def backend_failure_def py_strip_def strip_where_def isspace_def)
  have p3: "post example_env ''hi'' (2 + 1) = Content '' Remember to call the bank. ''"
    by (simp add: example_env_def)
  have g: "\<forall>i. 1 \<le> i \<and> i \<le> nat (LOCAL_LLM_RETRIES example_config) + 1 \<longrightarrow> backend_failure (post dead_env ''hi'' i)"
    by (auto simp: example_env_def dead_env_def backend_failure_def)
  note T = local_chat_completion_retries [OF a b sl, of "''hi''" "''cleanup''"]
  note T' = local_chat_completion_retries [OF a b' sl', of "''hi''" "''cleanup''"]
  have "fst (local_chat_completion example_config example_env ''hi'' ''cleanup'' example_world)
     = Inr (py_strip '' Remember to call the bank. '')"
    using T k f p3 s by (metis list.distinct(1))
  then have 1: "fst (local_chat_completion example_config example_env ''hi'' ''cleanup'' example_world)
     = Inr ''Remember to call the bank.''"
    by (simp only: s)
  from T' g
  have "fst (local_chat_completion example_config dead_env ''hi'' ''cleanup'' example_world) =
          Inl (RuntimeError (''Local LLM '' @ ''cleanup'' @ '' failed after '' @
                 show_nat (nat (LOCAL_LLM_RETRIES example_config) + 1) @ '' attempts: '' @
                 exn_str (failure_exn (post dead_env ''hi'' (nat (LOCAL_LLM_RETRIES example_config) + 1)))))"
    by blast
  then have 2: "fst (local_chat_completion example_config dead_env ''hi'' ''cleanup'' example_world)
     = Inl (RuntimeError ''Local LLM cleanup failed after 3 attempts: read timed out'')"
    by (simp add: example_config_def dead_env_def example_env_def failure_exn_def show_nat.simps digit_char_def)
  from 1 2 show ?thesis by simp
qed

lemma completion_loop_numeral:
  "completion_loop e backoff req operation attempts (numeral k) attempt last_error w =
     (let w' = w\<lparr>calls := calls w @ [LocalPost operation attempt]\<rparr>
      in case attempt_result (req attempt) of
           Inr content \<Rightarrow> (Inr content, w')
         | Inl exc \<Rightarrow>
             if retryable exc
             then (if attempt \<ge> attempts
                   then (Inl (terminal_error operation attempts (Some exc)), w')
                   else (case time_sleep e backoff of
                           Inl x \<Rightarrow> (Inl x, w')
                         | Inr u \<Rightarrow>
                             completion_loop e backoff req operation attempts (pred_numeral k) (attempt + 1) (Some exc) w'))
             else (Inl exc, w'))"
  by (simp add: numeral_eq_Suc)

text \<open>
  C4 as the claim states it fails on the code in two ways. With two retries and a
  negative back-off time, a backend that fails twice and then answers does not get its
  second attempt: \<open>time.sleep\<close> raises \<open>ValueError\<close> in the \<open>except\<close> clause after the
  first failure. And when the reachability probe fails, the call raises the probe's
  exception without any attempt, although the backend would answer the first request.
\<close>

theorem local_chat_completion_counterexample:
  "LOCAL_LLM_RETRIES negative_backoff_config = 2 \<and>
   backend_failure (post example_env ''hi'' 1) \<and>
   backend_failure (post example_env ''hi'' 2) \<and>
   post example_env ''hi'' 3 = Content '' Remember to call the bank. '' \<and>
   py_strip '' Remember to call the bank. '' = ''Remember to call the bank.'' \<and>
   fst (local_chat_completion negative_backoff_config example_env ''hi'' ''cleanup'' example_world)
     = Inl (ValueError ''sleep length must be non-negative'') \<and>
   post probe_fail_env ''hi'' 1 = Content '' Remember to call the bank. '' \<and>
   fst (local_chat_completion example_config probe_fail_env ''hi'' ''cleanup'' example_world)
     = Inl (RequestException ''404 Client Error: Not Found'')"
  by (simp add: negative_backoff_config_def probe_fail_env_def example_config_def example_env_def
        example_world_def backend_failure_def local_chat_completion_def check_local_llm_def
        attempts_of_def completion_loop_numeral attempt_result_def time_sleep_def
        py_strip_def strip_where_def isspace_def Let_def)

section \<open>Stages of the pipeline\<close>

lemma bindE_Inr:
  assumes "bindE m f s = (Inr v, s')"
  obtains a s1 where "m s = (Inr a, s1)" and "f a s1 = (Inr v, s')"
  using assms by (auto simp: bindE_def split: prod.splits sum.splits)

lemma snd_transcribe: "snd (transcribe e p w) = w\<lparr>calls := calls w @ [Transcribe (path_str p)]\<rparr>"
  by (simp add: transcribe_def Let_def split: sum.splits)

lemma fst_transcribe: "fst (transcribe e p w) = fst (transcribe e p w0)"
  by (simp add: transcribe_def Let_def split: sum.splits)

lemma same_vault_completion_loop:
  "same_vault w (snd (completion_loop e backoff req operation attempts n a lst w))"
proof (induction n arbitrary: a lst w)
  case 0
  show ?case by (simp add: same_vault_def)
next
  case (Suc n)
  have "same_vault (w\<lparr>calls := calls w @ [LocalPost operation a]\<rparr>)
          (snd (completion_loop e backoff req operation attempts n (a + 1) l (w\<lparr>calls := calls w @ [LocalPost operation a]\<rparr>)))" for l
    by (rule Suc.IH)
  then show ?case
    by (auto simp: same_vault_def Let_def split: sum.splits)
qed

lemma completion_loop_calls:
  "\<exists>cs. calls (snd (completion_loop e backoff req operation attempts n a lst w)) = calls w @ cs \<and>
        (\<forall>c \<in> set cs. \<exists>i. c = LocalPost operation i)"
proof (induction n arbitrary: a lst w)
  case 0
  show ?case by (rule exI [of _ "[]"]) simp
next
  case (Suc n)
  let ?w = "w\<lparr>calls := calls w @ [LocalPost operation a]\<rparr>"
  have one: "\<exists>cs. calls ?w = calls w @ cs \<and> (\<forall>c \<in> set cs. \<exists>i. c = LocalPost operation i)"
    by (rule exI [of _ "[LocalPost operation a]"]) simp
  have two: "\<exists>cs. calls (snd (completion_loop e backoff req operation attempts n (a + 1) l ?w)) = calls w @ cs \<and>
                 (\<forall>c \<in> set cs. \<exists>i. c = LocalPost operation i)" for l
  proof -
    obtain cs where cs: "calls (snd (completion_loop e backoff req operation attempts n (a + 1) l ?w)) = calls ?w @ cs"
       "\<forall>c \<in> set cs. \<exists>i. c = LocalPost operation i"
      using Suc.IH by blast
    show ?thesis
      by (rule exI [of _ "LocalPost operation a # cs"]) (use cs in simp)
  qed
  show ?case
    using one two by (auto simp: Let_def split: sum.splits)
qed

lemma completion_loop_fst:
  "fst (completion_loop e backoff req operation attempts n a lst w) = fst (completion_loop e backoff req operation attempts n a lst w0)"
  by (induction n arbitrary: a lst w w0) (auto simp: Let_def split: sum.splits)


lemma same_vault_local_chat_completion:
  "same_vault w (snd (local_chat_completion cfg e pr operation w))"
proof -
  have "same_vault w1 (snd (completion_loop e (LOCAL_LLM_RETRY_BACKOFF_SEC cfg) (post e pr) operation (attempts_of cfg) (attempts_of cfg) 1 None w1))" for w1
    by (rule same_vault_completion_loop)
  then show ?thesis
    by (auto simp: same_vault_def local_chat_completion_def check_local_llm_def
             split: option.splits)
qed

lemma local_chat_completion_calls:
  "\<exists>cs. calls (snd (local_chat_completion cfg e pr operation w)) = calls w @ cs \<and>
        (\<forall>c \<in> set cs. c = LocalProbe \<or> (\<exists>i. c = LocalPost operation i))"
proof -
  have chk: "\<exists>cs. calls (snd (check_local_llm e w)) = calls w @ cs \<and> (\<forall>c \<in> set cs. c = LocalProbe)"
  proof (cases "local_llm_checked w")
    case True
    show ?thesis by (rule exI [of _ "[]"]) (simp add: check_local_llm_def True)
  next
    case False
    show ?thesis
      by (rule exI [of _ "[LocalProbe]"]) (simp add: check_local_llm_def False split: option.splits)
  qed
  then obtain cs0 where cs0: "calls (snd (check_local_llm e w)) = calls w @ cs0" "\<forall>c \<in> set cs0. c = LocalProbe"
    by blast
  obtain r w1 where P: "check_local_llm e w = (r, w1)" by (cases "check_local_llm e w")
  show ?thesis
  proof (cases r)
    case (Inl x)
    show ?thesis
      by (rule exI [of _ cs0]) (use P Inl cs0 in \<open>auto simp: local_chat_completion_def\<close>)
  next
    case (Inr u)
    obtain cs1 where cs1:
      "calls (snd (completion_loop e (LOCAL_LLM_RETRY_BACKOFF_SEC cfg) (post e pr) operation (attempts_of cfg) (attempts_of cfg) 1 None w1)) = calls w1 @ cs1"
      "\<forall>c \<in> set cs1. \<exists>i. c = LocalPost operation i"
      using completion_loop_calls by blast
    show ?thesis
      by (rule exI [of _ "cs0 @ cs1"]) (use P Inr cs0 cs1 in \<open>auto simp: local_chat_completion_def\<close>)
  qed
qed

lemma local_chat_completion_fst:
  "local_llm_checked w = local_llm_checked w0 \<Longrightarrow>
   fst (local_chat_completion cfg e pr operation w) = fst (local_chat_completion cfg e pr operation w0)"
  using completion_loop_fst
  by (auto simp: local_chat_completion_def check_local_llm_def split: option.splits)


lemma bindE_fst:
  "bindE m f s = (case fst (m s) of Inl x \<Rightarrow> (Inl x, snd (m s)) | Inr v \<Rightarrow> f v (snd (m s)))"
  by (simp add: bindE_def split: prod.splits sum.splits)

lemma lift_fst: "lift c s = (fst (c (snd s)), (fst s, snd (c (snd s))))"
  by (simp add: lift_def split: prod.splits)

lemma time_sleep_error_text: "time_sleep e secs = Inl x \<Longrightarrow> exn_str x \<noteq> []"
  by (auto simp: time_sleep_def split: pyfloat.splits if_splits)

lemma completion_loop_error_text:
  assumes "\<forall>i x. req i = Raises x \<longrightarrow> exn_str x \<noteq> []"
    and "fst (completion_loop e backoff req operation attempts n a lst w) = Inl exc"
  shows "exn_str exc \<noteq> []"
  using assms(2)
proof (induction n arbitrary: a lst w)
  case 0
  then show ?case by (auto simp: terminal_error_def)
next
  case (Suc n)
  show ?case
  proof (cases "req a")
    case (Raises x)
    with assms(1) have "exn_str x \<noteq> []" by blast
    with Suc Raises show ?thesis
      by (auto simp: attempt_result_def Let_def terminal_error_def
               dest: time_sleep_error_text split: if_splits sum.splits)
  next
    case (Content c)
    with Suc show ?thesis
      by (auto simp: attempt_result_def Let_def terminal_error_def
               dest: time_sleep_error_text split: if_splits sum.splits)
  qed
qed

lemma local_chat_completion_error_text:
  assumes "server_errors_have_text e"
    and "fst (local_chat_completion cfg e pr operation w) = Inl exc"
  shows "exn_str exc \<noteq> []"
proof -
  have req: "\<forall>i x. post e pr i = Raises x \<longrightarrow> exn_str x \<noteq> []"
    using assms(1) by (simp add: server_errors_have_text_def)
  show ?thesis
  proof (cases "fst (check_local_llm e w)")
    case (Inl x)
    then have "probe e = Some x"
      by (auto simp: check_local_llm_def split: if_splits option.splits)
    moreover have "exc = x"
      using assms(2) Inl by (auto simp: local_chat_completion_def split: prod.splits)
    ultimately show ?thesis using assms(1) by (simp add: server_errors_have_text_def)
  next
    case (Inr u)
    then have "fst (completion_loop e (LOCAL_LLM_RETRY_BACKOFF_SEC cfg) (post e pr) operation (attempts_of cfg) (attempts_of cfg) 1 None
                 (snd (check_local_llm e w))) = Inl exc"
      using assms(2) by (auto simp: local_chat_completion_def split: prod.splits)
    with req show ?thesis by (rule completion_loop_error_text)
  qed
qed

text \<open>
  The exceptions that the client raises itself (the terminal error, the error for empty
  content, the errors of \<open>time.sleep\<close>) carry a message. So the exception of a failing
  cleanup has one whenever those coming from the server have.
\<close>

lemma cleanup_error_text:
  assumes "server_errors_have_text e"
    and "fst (cleanup_transcription cfg e raw_text w) = Inl exc"
  shows "exn_str exc \<noteq> []"
  using local_chat_completion_error_text [OF assms(1)] assms(2)
  by (simp add: cleanup_transcription_def)

lemma vault_fields:
  assumes "same_vault w w'"
  shows "dirs w' = dirs w" "files w' = files w" "capture_md w' = capture_md w"
    "metrics_jsonl w' = metrics_jsonl w" "events_jsonl w' = events_jsonl w"
    "audio_files w' = audio_files w"
  using assms by (simp_all add: same_vault_def)

lemmas cleanup_vault = vault_fields [OF same_vault_local_chat_completion]

text \<open>
  C1, as amended. A run in which the transcription stage succeeds (the speech engine returns text
  and both copies of the raw transcript are written) and the cleanup stage then raises
  \<open>exc\<close>: provided the handler's own two writes succeed, \<open>process\<close> returns \<open>False\<close>
  instead of raising, appends exactly one record, and this record has status \<open>failed\<close>,
  the error text \<open>str(exc)\<close>, a \<open>transcription\<close> duration and neither a \<open>cleanup\<close> nor a
  \<open>breakdown\<close> duration; the audio files of the vault are untouched. The error text is
  not empty when the exception carries a message.
\<close>

theorem process_cleanup_failure:
  assumes "\<not> raw_only_flag"
    and "io_error e MkSessionDir = None"
    and "fst (transcribe e p w) = Inr (raw_text, meth)"
    and "io_error e WriteRawArchive = None" and "io_error e WriteRawSession = None"
    and "fst (cleanup_transcription cfg e raw_text w) = Inl exc"
    and "exn_str exc \<noteq> []"
    and "io_error e HandlerWriteSessionMeta = None" and "io_error e HandlerAppendMetrics = None"
  shows "fst (process cfg e p raw_only_flag clean_only_flag w) = Inr False \<and>
         (\<exists>r. metrics_jsonl (snd (process cfg e p raw_only_flag clean_only_flag w)) = metrics_jsonl w @ [r] \<and>
              status r = ''failed'' \<and> error r = Some (exn_str exc) \<and> error r \<noteq> Some [] \<and>
              map_of (durations_sec r) ''transcription'' = Some (elapsed e PcTranscribed PcT0) \<and>
              map_of (durations_sec r) ''cleanup'' = None \<and>
              map_of (durations_sec r) ''breakdown'' = None) \<and>
         audio_files (snd (process cfg e p raw_only_flag clean_only_flag w)) = audio_files w"
proof -
  have tr: "fst (transcribe e p w') = Inr (raw_text, meth)" for w'
    using assms(3) fst_transcribe by metis
  have cl: "fst (local_chat_completion cfg e (cleanup_prompt raw_text) ''cleanup'' w') = Inl exc"
    if "local_llm_checked w' = local_llm_checked w" for w'
    using assms(6) local_chat_completion_fst [OF that] by (simp add: cleanup_transcription_def)
  show ?thesis
    using assms(1,2,4,5,7,8,9)
    by (simp add: process_def try_body_def stage_transcribe_def stage_cleanup_def on_exception_def bindE_fst lift_fst set_metrics_def
          set_duration_def returnE_def mkdir_def io_def write_text_def save_raw_transcript_def
          write_session_metadata_def append_metrics_def initial_metrics_def Let_def
          cleanup_transcription_def tr cl snd_transcribe cleanup_vault)
qed


lemma local_chat_completion_callsD:
  assumes "c \<in> set (calls (snd (local_chat_completion cfg e pr operation w)))"
  shows "c \<in> set (calls w) \<or> c = LocalProbe \<or> (\<exists>i. c = LocalPost operation i)"
  using local_chat_completion_calls [of cfg e pr operation w] assms by auto


lemma on_exception_not_True: "on_exception e sdir exc s \<noteq> (Inr True, s')"
proof -
  have "fst (on_exception e sdir exc s) \<noteq> Inr True"
    by (simp add: on_exception_def bindE_fst lift_fst set_metrics_def set_duration_def returnE_def
          write_session_metadata_def append_metrics_def io_def split: option.splits)
  then show ?thesis by auto
qed

lemma process_success:
  assumes "fst (process cfg e p rf cf w) = Inr True"
  obtains s where
    "try_body cfg e p rf cf (join (sessions_dir cfg) (make_session_id p (datetime_now e NowStart)))
        (initial_metrics cfg p rf cf (make_session_id p (datetime_now e NowStart))
           (datetime_now e NowStart)
           (join (sessions_dir cfg) (make_session_id p (datetime_now e NowStart))),
         w\<lparr>dirs := List.insert (join (sessions_dir cfg) (make_session_id p (datetime_now e NowStart))) (dirs w)\<rparr>)
      = (Inr True, s)"
    and "snd (process cfg e p rf cf w) = snd s"
  using assms
  by (auto simp: process_def mkdir_def io_def Let_def on_exception_not_True
           split: if_splits option.splits prod.splits sum.splits)

lemma returnE_InrE:
  assumes "returnE v s = (Inr a, s')"
  obtains "a = v" and "s' = s"
  using assms by (auto simp: returnE_def)

lemma set_metrics_InrE:
  assumes "set_metrics f s = (Inr a, s')"
  obtains "s' = (f (fst s), snd s)"
  using assms by (auto simp: set_metrics_def)

lemma lift_transcribe_InrE:
  assumes "lift (transcribe e p) s = (Inr a, s')"
  obtains "fst (transcribe e p (snd s)) = Inr a"
    and "s' = (fst s, (snd s)\<lparr>calls := calls (snd s) @ [Transcribe (path_str p)]\<rparr>)"
  using assms snd_transcribe [of e p "snd s"] by (auto simp: lift_def split: prod.splits)

lemma lift_save_raw_InrE:
  assumes "lift (save_raw_transcript cfg e p raw sdir) s = (Inr a, s')"
  obtains "io_error e WriteRawArchive = None" and "io_error e WriteRawSession = None"
    and "a = join sdir ''raw_transcript.txt''"
    and "s' = (fst s, snd (save_raw_transcript cfg e p raw sdir (snd s)))"
  using assms
  by (auto simp: lift_def save_raw_transcript_def write_text_def io_def Let_def
           split: prod.splits option.splits)


lemma lift_InrE:
  assumes "lift c s = (Inr a, s')"
  obtains "fst (c (snd s)) = Inr a" and "s' = (fst s, snd (c (snd s)))"
  using assms by (auto simp: lift_def split: prod.splits)

lemma lift_write_text_InrE:
  assumes "lift (write_text e site dir file text) s = (Inr a, s')"
  obtains "io_error e site = None" and "a = join dir file"
    and "s' = (fst s, (snd s)\<lparr>dirs := List.insert dir (dirs (snd s)),
                 files := AList.update (join dir file) (Text (py_strip text @ ''\<newline>'')) (files (snd s))\<rparr>)"
  using assms by (auto simp: lift_def write_text_def io_def split: option.splits)

lemma lift_archive_audio_InrE:
  assumes "lift (archive_audio cfg e p) s = (Inr a, s')"
  obtains "io_error e ArchiveAudio = None"
    and "s' = (fst s, (snd s)\<lparr>audio_files := List.insert a (removeAll (path_str p) (audio_files (snd s)))\<rparr>)"
  using assms by (auto simp: lift_def archive_audio_def io_def Let_def split: option.splits)

lemma lift_log_event_InrE:
  assumes "lift (log_event cfg e p meth model_used) s = (Inr a, s')"
  obtains ev where "io_error e LogEvent = None"
    and "s' = (fst s, (snd s)\<lparr>events_jsonl := events_jsonl (snd s) @ [ev]\<rparr>)"
  using assms by (auto simp: lift_def log_event_def io_def Let_def split: option.splits)

lemma lift_append_capture_InrE:
  assumes "lift (append_capture e p raw clean breakdown meth model_used) s = (Inr a, s')"
  obtains "io_error e AppendCapture = None"
    and "s' = (fst s, (snd s)\<lparr>capture_md := capture_md (snd s) @
           [capture_entry (strftime_minute (datetime_now e NowCapture)) (name p) raw clean breakdown meth model_used]\<rparr>)"
  using assms by (auto simp: lift_def append_capture_def io_def Let_def split: option.splits)

lemma write_session_metadata_InrE:
  assumes "write_session_metadata e site sdir s = (Inr a, s')"
  obtains "io_error e site = None"
    and "s' = (fst s, (snd s)\<lparr>dirs := List.insert sdir (dirs (snd s)),
                 files := AList.update (join sdir ''session_meta.json'') (MetaJson (fst s)) (files (snd s))\<rparr>)"
  using assms by (auto simp: write_session_metadata_def lift_def io_def split: option.splits)

lemma append_metrics_InrE:
  assumes "append_metrics e site s = (Inr a, s')"
  obtains "io_error e site = None"
    and "s' = (fst s, (snd s)\<lparr>metrics_jsonl := metrics_jsonl (snd s) @ [fst s]\<rparr>)"
  using assms by (auto simp: append_metrics_def lift_def io_def split: option.splits)

lemma lift_cleanup_InrE:
  assumes "lift (cleanup_transcription cfg e raw) s = (Inr a, s')"
  obtains "fst (cleanup_transcription cfg e raw (snd s)) = Inr a"
    and "s' = (fst s, snd (cleanup_transcription cfg e raw (snd s)))"
  using assms by (rule lift_InrE)

lemma lift_breakdown_tasks_InrE:
  assumes "lift (breakdown_tasks cfg e clean) s = (Inr a, s')"
  obtains "fst (breakdown_tasks cfg e clean (snd s)) = Inr a"
    and "s' = (fst s, snd (breakdown_tasks cfg e clean (snd s)))"
  using assms by (rule lift_InrE)

lemma same_vault_cleanup: "same_vault w (snd (cleanup_transcription cfg e raw w))"
  by (simp add: cleanup_transcription_def same_vault_local_chat_completion)

lemmas cleanup_stage_vault = vault_fields [OF same_vault_cleanup]

lemma cleanup_callsD:
  assumes "c \<in> set (calls (snd (cleanup_transcription cfg e raw w)))"
  shows "c \<in> set (calls w) \<or> c = LocalProbe \<or> (\<exists>i. c = LocalPost ''cleanup'' i)"
  using assms unfolding cleanup_transcription_def by (rule local_chat_completion_callsD)

lemma same_vault_breakdown_tasks: "same_vault w (snd (breakdown_tasks cfg e clean w))"
proof -
  have 1: "same_vault w (snd (breakdown_with_claude cfg e clean w))"
    by (auto simp: breakdown_with_claude_def same_vault_def Let_def split: sum.splits prod.splits)
  have 2: "same_vault w (snd (breakdown_with_local_llm cfg e clean w))"
    by (simp add: breakdown_with_local_llm_def same_vault_local_chat_completion)
  show ?thesis
    using 1 2 by (auto simp: breakdown_tasks_def same_vault_def split: prod.splits sum.splits)
qed

lemmas breakdown_vault = vault_fields [OF same_vault_breakdown_tasks]

lemma stage_transcribe_Inr:
  assumes "stage_transcribe cfg e p sdir s = (Inr (raw, meth), s')"
  shows "fst (transcribe e p (snd s)) = Inr (raw, meth)"
    and "io_error e WriteRawArchive = None" and "io_error e WriteRawSession = None"
    and "fst s' = (fst s)\<lparr>durations_sec := AList.update ''transcription'' (elapsed e PcTranscribed PcT0) (durations_sec (fst s)),
                        transcription_method := Some meth,
                        raw_transcript_path := Some (join sdir ''raw_transcript.txt''),
                        raw_chars := Some (length raw),
                        raw_words := Some (length (py_split raw))\<rparr>"
    and "calls (snd s') = calls (snd s) @ [Transcribe (path_str p)]"
    and "local_llm_checked (snd s') = local_llm_checked (snd s)"
    and "capture_md (snd s') = capture_md (snd s)"
    and "metrics_jsonl (snd s') = metrics_jsonl (snd s)"
    and "events_jsonl (snd s') = events_jsonl (snd s)"
    and "audio_files (snd s') = audio_files (snd s)"
  using assms
  by (auto simp: stage_transcribe_def set_duration_def save_raw_transcript_def write_text_def io_def
        elim!: bindE_Inr lift_transcribe_InrE set_metrics_InrE lift_save_raw_InrE returnE_InrE)

lemma stage_cleanup_Inr:
  assumes "stage_cleanup cfg e sdir raw s = (Inr clean, s')"
  shows "fst (cleanup_transcription cfg e raw (snd s)) = Inr clean"
    and "io_error e WriteCleaned = None"
    and "fst s' = (fst s)\<lparr>durations_sec := AList.update ''cleanup'' (elapsed e PcCleanupEnd PcCleanupStart) (durations_sec (fst s)),
                        clean_chars := Some (length clean),
                        clean_words := Some (length (py_split clean)),
                        compression_ratio := Some (py_round (nearest_double (of_nat (length clean) / of_nat (max 1 (length raw)))) 4),
                        clean_transcript_path := Some (join sdir ''cleaned_transcript.txt'')\<rparr>"
    and "\<forall>c \<in> set (calls (snd s')). c \<in> set (calls (snd s)) \<or> c = LocalProbe \<or> (\<exists>i. c = LocalPost ''cleanup'' i)"
    and "capture_md (snd s') = capture_md (snd s)"
    and "metrics_jsonl (snd s') = metrics_jsonl (snd s)"
    and "events_jsonl (snd s') = events_jsonl (snd s)"
    and "audio_files (snd s') = audio_files (snd s)"
  using assms
  by (auto simp: stage_cleanup_def set_duration_def cleanup_stage_vault
        elim!: bindE_Inr lift_write_text_InrE lift_cleanup_InrE set_metrics_InrE returnE_InrE
        dest!: cleanup_callsD)

lemma breakdown_stage_clean_only_Inr:
  assumes "breakdown_stage cfg e True sdir clean s = (Inr (breakdown, model_used), s')"
  shows "breakdown = ''_Skipped due to --clean-only mode._''"
    and "model_used = ''skipped_clean_only''"
    and "s' = ((fst s)\<lparr>breakdown_model := Some ''skipped_clean_only''\<rparr>, snd s)"
  using assms
  by (auto simp: breakdown_stage_def elim!: bindE_Inr set_metrics_InrE returnE_InrE)

lemma breakdown_stage_Inr:
  assumes "breakdown_stage cfg e cf sdir clean s = (Inr (breakdown, model_used), s')"
  shows "compression_ratio (fst s') = compression_ratio (fst s)"
    and "capture_md (snd s') = capture_md (snd s)"
    and "metrics_jsonl (snd s') = metrics_jsonl (snd s)"
    and "events_jsonl (snd s') = events_jsonl (snd s)"
    and "audio_files (snd s') = audio_files (snd s)"
    and "raw_chars (fst s') = raw_chars (fst s)"
    and "clean_chars (fst s') = clean_chars (fst s)"
  using assms
  by (auto simp: breakdown_stage_def set_duration_def breakdown_vault
        elim!: bindE_Inr lift_write_text_InrE lift_breakdown_tasks_InrE set_metrics_InrE returnE_InrE
        split: if_splits)

lemma capture_and_finish_Inr:
  assumes "capture_and_finish cfg e p sdir raw clean breakdown meth model_used s = (Inr True, s')"
  shows "capture_md (snd s') = capture_md (snd s) @
           [capture_entry (strftime_minute (datetime_now e NowCapture)) (name p) raw clean breakdown meth model_used]"
    and "\<exists>r. metrics_jsonl (snd s') = metrics_jsonl (snd s) @ [r] \<and> status r = ''success'' \<and>
              breakdown_model r = breakdown_model (fst s) \<and>
              compression_ratio r = compression_ratio (fst s) \<and>
              raw_chars r = raw_chars (fst s) \<and> clean_chars r = clean_chars (fst s) \<and>
              tasks_path r = tasks_path (fst s) \<and>
              map_of (durations_sec r) ''breakdown'' = map_of (durations_sec (fst s)) ''breakdown''"
    and "calls (snd s') = calls (snd s)"
  using assms
  by (auto simp: capture_and_finish_def set_duration_def update_conv'
        elim!: bindE_Inr lift_append_capture_InrE lift_archive_audio_InrE lift_log_event_InrE
               write_session_metadata_InrE append_metrics_InrE set_metrics_InrE returnE_InrE)


lemma try_body_stages:
  assumes "try_body cfg e p False cf sdir s0 = (Inr True, s)"
  obtains raw meth s1 clean s2 breakdown model_used s3 where
    "stage_transcribe cfg e p sdir s0 = (Inr (raw, meth), s1)"
    "stage_cleanup cfg e sdir raw s1 = (Inr clean, s2)"
    "breakdown_stage cfg e cf sdir clean s2 = (Inr (breakdown, model_used), s3)"
    "capture_and_finish cfg e p sdir raw clean breakdown meth model_used s3 = (Inr True, s)"
  using assms by (auto simp: try_body_def elim!: bindE_Inr)

text \<open>
  C8. A successful run in clean-only mode: every collaborator call it makes is a
  transcription, the reachability probe or a completion request of the cleanup
  operation (so neither the local task-breakdown request nor the remote API is invoked);
  the one record it appends has status \<open>success\<close>, the model label \<open>skipped_clean_only\<close>
  and no \<open>breakdown\<close> duration; and the one capture entry it appends ends with the Tasks
  heading followed by the placeholder \<open>_Skipped due to --clean-only mode._\<close> verbatim.
\<close>

theorem process_clean_only:
  assumes "fst (process cfg e p False True w) = Inr True"
  shows "(\<forall>c \<in> set (calls (snd (process cfg e p False True w))).
            c \<in> set (calls w) \<or> (\<exists>a. c = Transcribe a) \<or> c = LocalProbe \<or> (\<exists>i. c = LocalPost ''cleanup'' i)) \<and>
         (\<exists>r. metrics_jsonl (snd (process cfg e p False True w)) = metrics_jsonl w @ [r] \<and>
              status r = ''success'' \<and> breakdown_model r = Some ''skipped_clean_only'' \<and>
              map_of (durations_sec r) ''breakdown'' = None) \<and>
         (\<exists>entry pre. capture_md (snd (process cfg e p False True w)) = capture_md w @ [entry] \<and>
              entry = pre @ tasks_placeholder_tail)"
proof -
  define sdir where "sdir = join (sessions_dir cfg) (make_session_id p (datetime_now e NowStart))"
  define m0 where "m0 = initial_metrics cfg p False True (make_session_id p (datetime_now e NowStart))
                          (datetime_now e NowStart) sdir"
  define w1 where "w1 = w\<lparr>dirs := List.insert sdir (dirs w)\<rparr>"
  from process_success [OF assms] obtain s
    where T: "try_body cfg e p False True sdir (m0, w1) = (Inr True, s)"
      and S: "snd (process cfg e p False True w) = snd s"
    unfolding sdir_def m0_def w1_def by blast
  have m0: "durations_sec m0 = []" by (simp add: m0_def initial_metrics_def)
  have w1: "calls w1 = calls w" "metrics_jsonl w1 = metrics_jsonl w" "capture_md w1 = capture_md w"
    by (simp_all add: w1_def)
  from T obtain raw meth s1 clean s2 breakdown model_used s3 where
    A: "stage_transcribe cfg e p sdir (m0, w1) = (Inr (raw, meth), s1)" and
    B: "stage_cleanup cfg e sdir raw s1 = (Inr clean, s2)" and
    C: "breakdown_stage cfg e True sdir clean s2 = (Inr (breakdown, model_used), s3)" and
    D: "capture_and_finish cfg e p sdir raw clean breakdown meth model_used s3 = (Inr True, s)"
    by (rule try_body_stages)
  note a = stage_transcribe_Inr [OF A]
  note b = stage_cleanup_Inr [OF B]
  note c = breakdown_stage_clean_only_Inr [OF C]
  note d = capture_and_finish_Inr [OF D]
  have calls: "\<forall>c \<in> set (calls (snd s)).
            c \<in> set (calls w) \<or> (\<exists>a. c = Transcribe a) \<or> c = LocalProbe \<or> (\<exists>i. c = LocalPost ''cleanup'' i)"
    using a(5) b(4) c(3) d(3) w1(1) by auto
  from d(2) obtain r where r: "metrics_jsonl (snd s) = metrics_jsonl (snd s3) @ [r]"
     "status r = ''success''" "breakdown_model r = breakdown_model (fst s3)"
     "map_of (durations_sec r) ''breakdown'' = map_of (durations_sec (fst s3)) ''breakdown''"
    by blast
  have rec: "metrics_jsonl (snd s) = metrics_jsonl w @ [r] \<and>
              status r = ''success'' \<and> breakdown_model r = Some ''skipped_clean_only'' \<and>
              map_of (durations_sec r) ''breakdown'' = None"
    using r a(4,8) b(3,6) c(3) m0 w1(2) by (simp add: update_conv')
  have cap: "capture_md (snd s) = capture_md w @
        [capture_entry (strftime_minute (datetime_now e NowCapture)) (name p) raw clean
           ''_Skipped due to --clean-only mode._'' meth ''skipped_clean_only'']"
    using d(1) a(7) b(5) c w1(3) by simp
  have tail: "capture_entry stamp n raw clean ''_Skipped due to --clean-only mode._'' meth model =
      (''\<newline>## '' @ stamp @ ''\<newline>**Audio:** ['' @ ''['' @ n @ '']'' @ '']'' @
       ''\<newline>**Transcription:** '' @ meth @ '' | **Breakdown:** '' @ model @
       ''\<newline>\<newline>**Raw Transcription:**\<newline>> '' @ raw @
       ''\<newline>\<newline>**Cleaned:**\<newline>'' @ clean) @ tasks_placeholder_tail" for stamp n model
    by (simp add: capture_entry_def tasks_placeholder_tail_def)
  show ?thesis
    unfolding S using calls rec cap tail by blast
qed

lemma bit_length_bounds: "0 < n \<Longrightarrow> 2 ^ (bit_length n - 1) \<le> n \<and> n < 2 ^ bit_length n"
proof (induction n rule: bit_length.induct)
  case (1 n)
  show ?case
  proof (cases "n div 2 = 0")
    case True
    with 1 have "n = 1" by (auto simp: div_eq_0_iff)
    then show ?thesis by (simp add: bit_length.simps)
  next
    case False
    then have pos: "0 < n div 2" by simp
    with 1 have IH: "2 ^ (bit_length (n div 2) - 1) \<le> n div 2" "n div 2 < 2 ^ bit_length (n div 2)"
      by auto
    have bl: "bit_length n = Suc (bit_length (n div 2))"
      using 1(2) by (subst bit_length.simps) simp
    have b1: "0 < bit_length (n div 2)" using pos by (subst bit_length.simps) simp
    then obtain k where k: "bit_length (n div 2) = Suc k" by (cases "bit_length (n div 2)") auto
    have d: "2 * (n div 2) \<le> n" "n < 2 * (n div 2) + 2" by arith+
    have "2 ^ (bit_length n - 1) = 2 * (2::nat) ^ k" by (simp add: bl k)
    moreover have "(2::nat) ^ bit_length n = 2 * (2 * 2 ^ k)" by (simp add: bl k)
    moreover have "(2::nat) ^ k \<le> n div 2" "n div 2 < 2 * 2 ^ k" using IH by (simp_all add: k)
    ultimately show ?thesis using d by linarith
  qed
qed

lemma bit_length_rat:
  assumes "0 < n"
  shows "(2::rat) ^ (bit_length n - 1) \<le> of_nat n" "of_nat n + 1 \<le> (2::rat) ^ bit_length n"
    "0 < bit_length n"
proof -
  from bit_length_bounds [OF assms]
  have a: "2 ^ (bit_length n - 1) \<le> n" and b: "Suc n \<le> 2 ^ bit_length n" by auto
  have "rat_of_nat (2 ^ (bit_length n - 1)) \<le> rat_of_nat n" using a by (simp only: of_nat_le_iff)
  then show "(2::rat) ^ (bit_length n - 1) \<le> of_nat n" by simp
  have "rat_of_nat (Suc n) \<le> rat_of_nat (2 ^ bit_length n)" using b by (simp only: of_nat_le_iff)
  then show "of_nat n + 1 \<le> (2::rat) ^ bit_length n" by (simp add: add.commute)
  show "0 < bit_length n" using assms by (subst bit_length.simps) simp
qed

text \<open>The exponent that \<open>binary_exponent\<close> computes is the one of the binade of \<open>r\<close>.\<close>

lemma binary_exponent_bounds:
  assumes "0 < r"
  shows "2 powi binary_exponent r \<le> r" "r < 2 powi (binary_exponent r + 1)"
proof -
  have "2 powi binary_exponent r \<le> r \<and> r < 2 powi (binary_exponent r + 1)"
  proof (cases "1 \<le> r")
    case True
    define n where "n = nat \<lfloor>r\<rfloor>"
    have n: "0 < n" "of_nat n \<le> r" "r < of_nat n + 1"
      using True unfolding n_def by (auto simp: le_floor_iff) linarith
    note b = bit_length_rat [OF n(1)]
    have e: "binary_exponent r = int (bit_length n - 1)"
      using True b(3) by (simp add: binary_exponent_def n_def of_nat_diff)
    have e1: "binary_exponent r + 1 = int (bit_length n)"
      using b(3) by (simp add: e of_nat_diff)
    show ?thesis unfolding e1 unfolding e power_int_of_nat using b n by linarith
  next
    case False
    define x where "x = 1 / r"
    have x: "1 < x" "0 < x" "r = 1 / x" using False assms by (auto simp: x_def)
    define m where "m = nat (\<lceil>x\<rceil> - 1)"
    have c: "2 \<le> \<lceil>x\<rceil>" using x(1) by linarith
    have m: "0 < m" "of_nat m < x" "x \<le> of_nat m + 1"
      using c unfolding m_def by auto linarith+
    note b = bit_length_rat [OF m(1)]
    have e: "binary_exponent r = - int (bit_length m)"
      using False by (simp add: binary_exponent_def m_def x_def)
    have e1: "binary_exponent r + 1 = - int (bit_length m - 1)"
      using b(3) by (simp add: e of_nat_diff)
    have p: "(0::rat) < 2 ^ (bit_length m - 1)" by simp
    have le: "x \<le> (2::rat) ^ bit_length m" using m(3) b(2) by (rule order_trans)
    have lo: "1 / 2 ^ bit_length m \<le> 1 / x"
      using le x(2) by (intro divide_left_mono) (auto intro: mult_pos_pos)
    have lt: "(2::rat) ^ (bit_length m - 1) < x" using b(1) m(2) by (rule le_less_trans)
    have hi: "1 / x < 1 / 2 ^ (bit_length m - 1)"
      using lt p x(2) by (intro divide_strict_left_mono) (auto intro: mult_pos_pos)
    have g1: "(2::rat) powi binary_exponent r = 1 / 2 ^ bit_length m"
      by (simp only: e power_int_minus power_int_of_nat inverse_eq_divide)
    have g2: "(2::rat) powi (binary_exponent r + 1) = 1 / 2 ^ (bit_length m - 1)"
      by (simp only: e1 power_int_minus power_int_of_nat inverse_eq_divide)
    show ?thesis
      unfolding g1 g2 using lo hi x(3) by simp
  qed
  then show "2 powi binary_exponent r \<le> r" "r < 2 powi (binary_exponent r + 1)" by simp_all
qed

lemma round_half_even_near: "\<bar>of_int (round_half_even x) - x\<bar> \<le> 1 / 2"
proof -
  define d where "d = x - of_int \<lfloor>x\<rfloor>"
  have d: "0 \<le> d" "d < 1" unfolding d_def by linarith+
  have x: "x = of_int \<lfloor>x\<rfloor> + d" unfolding d_def by simp
  have r: "round_half_even x =
             (if d < 1 / 2 then \<lfloor>x\<rfloor> else if 1 / 2 < d then \<lfloor>x\<rfloor> + 1
              else if even \<lfloor>x\<rfloor> then \<lfloor>x\<rfloor> else \<lfloor>x\<rfloor> + 1)"
    by (simp add: round_half_even_def Let_def d_def)
  consider "round_half_even x = \<lfloor>x\<rfloor>" "d \<le> 1 / 2"
    | "round_half_even x = \<lfloor>x\<rfloor> + 1" "1 / 2 \<le> d"
    unfolding r by (cases "d < 1 / 2"; cases "1 / 2 < d"; cases "even \<lfloor>x\<rfloor>") auto
  then show ?thesis
  proof cases
    case 1
    have "of_int (round_half_even x) - x = - d" using 1(1) x by simp
    then show ?thesis using d 1(2) by simp
  next
    case 2
    have "of_int (round_half_even x) - x = 1 - d" using 2(1) x by simp
    then show ?thesis using d 2(2) by simp
  qed
qed

text \<open>Rounding to the nearest double changes a number by at most \<open>2^-53\<close> of its size.\<close>

lemma nearest_double_error: "\<bar>nearest_double r - r\<bar> \<le> \<bar>r\<bar> / 2 ^ 53"
proof (cases "r = 0")
  case True
  then show ?thesis by (simp add: nearest_double_def)
next
  case False
  define ex where "ex = binary_exponent \<bar>r\<bar>"
  define u :: rat where "u = 2 powi (ex - 52)"
  have u: "0 < u" unfolding u_def by (simp add: power_int_def)
  have lo: "2 powi ex \<le> \<bar>r\<bar>"
    unfolding ex_def using False by (intro binary_exponent_bounds) simp
  have ue: "u = 2 powi ex / 2 ^ 52"
    unfolding u_def by (simp add: power_int_diff)
  have nd: "nearest_double r = of_int (round_half_even (r / u)) * u"
    using False by (simp add: nearest_double_def Let_def ex_def u_def)
  have "nearest_double r - r = (of_int (round_half_even (r / u)) - r / u) * u"
    using u by (simp add: nd left_diff_distrib)
  then have "\<bar>nearest_double r - r\<bar> = \<bar>of_int (round_half_even (r / u)) - r / u\<bar> * u"
    using u by (simp add: abs_mult)
  also have "\<dots> \<le> (1 / 2) * u"
    using round_half_even_near [of "r / u"] u by (intro mult_right_mono) auto
  also have "\<dots> = 2 powi ex / 2 ^ 53" by (simp add: ue)
  also have "\<dots> \<le> \<bar>r\<bar> / 2 ^ 53" using lo by (intro divide_right_mono) auto
  finally show ?thesis .
qed

lemma quotient_error:
  "\<bar>nearest_double (of_nat a / of_nat b) - of_nat a / of_nat b\<bar> \<le> (of_nat a / of_nat b) / 2 ^ 53"
  using nearest_double_error [of "of_nat a / of_nat b"] by simp

lemma py_round_rounded: "rounded_to nd x (py_round x nd)"
proof -
  define k where "k = round_half_even (x * 10 ^ nd)"
  have pos: "(0::rat) < 10 ^ nd" by simp
  have near: "\<bar>of_int k - x * 10 ^ nd\<bar> \<le> 1 / 2"
    unfolding k_def by (rule round_half_even_near)
  have "of_int k / 10 ^ nd - x = (of_int k - x * 10 ^ nd) / 10 ^ nd"
    using pos by (simp add: diff_divide_distrib)
  then have "\<bar>of_int k / 10 ^ nd - x\<bar> = \<bar>of_int k - x * 10 ^ nd\<bar> / 10 ^ nd"
    using pos by simp
  also have "\<dots> \<le> (1 / 2) / 10 ^ nd"
    using near pos by (rule divide_right_mono [OF _ less_imp_le])
  finally have "\<bar>of_int k / 10 ^ nd - x\<bar> \<le> 1 / (2 * 10 ^ nd)" by simp
  then show ?thesis
    unfolding rounded_to_def py_round_def k_def by blast
qed

lemma py_round_40_100: "py_round (nearest_double (of_nat 40 / of_nat (max 1 100))) 4 = nearest_double (2 / 5)"
  by code_simp

lemma py_round_63_160: "py_round (nearest_double (of_nat 63 / of_nat (max 1 160))) 4 = nearest_double (3937 / 10000)"
  by code_simp

text \<open>
  C6. A successful run that is not raw-only appends one record whose
  \<open>compression_ratio\<close> is \<open>round(C / max(1, R), 4)\<close>, where \<open>R\<close> and \<open>C\<close> are the lengths of
  the raw and of the cleaned text (also recorded as \<open>raw_chars\<close> and \<open>clean_chars\<close>). In
  the binary floating point of the source this means: the quotient is the double nearest
  to \<open>C / max(1, R)\<close>, at most \<open>2^-53\<close> of its size away from it, and the recorded number
  is the double nearest to a decimal with four places that is at most half a unit of
  the fourth place away from that quotient. For \<open>R = 100\<close> and \<open>C = 40\<close> it is the
  \<open>float\<close> \<open>0.4\<close>; for \<open>R = 160\<close> and \<open>C = 63\<close>, where the quotient lies just below the
  midpoint \<open>0.39375\<close>, it is \<open>0.3937\<close>.
\<close>

theorem process_compression_ratio:
  assumes "fst (process cfg e p False cf w) = Inr True"
  shows "\<exists>r raw meth clean.
           metrics_jsonl (snd (process cfg e p False cf w)) = metrics_jsonl w @ [r] \<and>
           fst (transcribe e p w) = Inr (raw, meth) \<and>
           fst (cleanup_transcription cfg e raw w) = Inr clean \<and>
           raw_chars r = Some (length raw) \<and> clean_chars r = Some (length clean) \<and>
           compression_ratio r =
             Some (py_round (nearest_double (of_nat (length clean) / of_nat (max 1 (length raw)))) 4) \<and>
           rounded_to 4 (nearest_double (of_nat (length clean) / of_nat (max 1 (length raw))))
             (py_round (nearest_double (of_nat (length clean) / of_nat (max 1 (length raw)))) 4) \<and>
           \<bar>nearest_double (of_nat (length clean) / of_nat (max 1 (length raw))) -
              of_nat (length clean) / of_nat (max 1 (length raw))\<bar>
             \<le> of_nat (length clean) / of_nat (max 1 (length raw)) / 2 ^ 53 \<and>
           (length raw = 100 \<and> length clean = 40 \<longrightarrow>
              compression_ratio r = Some (nearest_double (2 / 5))) \<and>
           (length raw = 160 \<and> length clean = 63 \<longrightarrow>
              compression_ratio r = Some (nearest_double (3937 / 10000)))"
proof -
  define sdir where "sdir = join (sessions_dir cfg) (make_session_id p (datetime_now e NowStart))"
  define m0 where "m0 = initial_metrics cfg p False cf (make_session_id p (datetime_now e NowStart))
                          (datetime_now e NowStart) sdir"
  define w1 where "w1 = w\<lparr>dirs := List.insert sdir (dirs w)\<rparr>"
  from process_success [OF assms] obtain s
    where T: "try_body cfg e p False cf sdir (m0, w1) = (Inr True, s)"
      and S: "snd (process cfg e p False cf w) = snd s"
    unfolding sdir_def m0_def w1_def by blast
  have w1: "local_llm_checked w1 = local_llm_checked w" "metrics_jsonl w1 = metrics_jsonl w"
    by (simp_all add: w1_def)
  from T obtain raw meth clean s1 s2 breakdown model_used s3 where
    A: "stage_transcribe cfg e p sdir (m0, w1) = (Inr (raw, meth), s1)" and
    B: "stage_cleanup cfg e sdir raw s1 = (Inr clean, s2)" and
    C: "breakdown_stage cfg e cf sdir clean s2 = (Inr (breakdown, model_used), s3)" and
    D: "capture_and_finish cfg e p sdir raw clean breakdown meth model_used s3 = (Inr True, s)"
    by (rule try_body_stages)
  note a = stage_transcribe_Inr [OF A]
  note b = stage_cleanup_Inr [OF B]
  note c = breakdown_stage_Inr [OF C]
  note d = capture_and_finish_Inr [OF D]
  have tr: "fst (transcribe e p w) = Inr (raw, meth)"
    using a(1) fst_transcribe [of e p w w1] by simp
  have "fst (cleanup_transcription cfg e raw w) = fst (cleanup_transcription cfg e raw (snd s1))"
    unfolding cleanup_transcription_def
    by (rule local_chat_completion_fst) (simp add: a(6) w1(1))
  then have cl: "fst (cleanup_transcription cfg e raw w) = Inr clean"
    using b(1) by simp
  from d(2) obtain r where r: "metrics_jsonl (snd s) = metrics_jsonl (snd s3) @ [r]"
     "compression_ratio r = compression_ratio (fst s3)"
     "raw_chars r = raw_chars (fst s3)" "clean_chars r = clean_chars (fst s3)"
    by blast
  have ratio: "compression_ratio r = Some (py_round (nearest_double (of_nat (length clean) / of_nat (max 1 (length raw)))) 4)"
    using r(2) c(1) b(3) by simp
  have chars: "raw_chars r = Some (length raw)" "clean_chars r = Some (length clean)"
    using r(3,4) c(6,7) b(3) a(4) by simp_all
  have log: "metrics_jsonl (snd s) = metrics_jsonl w @ [r]"
    using r(1) c(3) b(6) a(8) w1(2) by simp
  have inst: "length raw = 100 \<and> length clean = 40 \<longrightarrow>
                     compression_ratio r = Some (nearest_double (2 / 5))"
    using ratio py_round_40_100 by auto
  have inst': "length raw = 160 \<and> length clean = 63 \<longrightarrow>
                     compression_ratio r = Some (nearest_double (3937 / 10000))"
    using ratio py_round_63_160 by auto
  show ?thesis
    unfolding S using log tr cl chars ratio inst inst' py_round_rounded quotient_error by blast
qed

section \<open>The pipeline on the example inputs\<close>

lemma elapsed_zero: "perf_counter e a = 0 \<Longrightarrow> perf_counter e b = 0 \<Longrightarrow> elapsed e a b = 0"
  by (simp add: elapsed_def float_sub_def py_round_def round_half_even_def nearest_double_def)

lemmas pipeline_defs =
  process_def try_body_def stage_transcribe_def stage_cleanup_def breakdown_stage_def
  capture_and_finish_def raw_only_tail_def on_exception_def bindE_fst lift_fst set_metrics_def
  set_duration_def returnE_def mkdir_def io_def write_text_def save_raw_transcript_def
  write_session_metadata_def append_metrics_def initial_metrics_def Let_def
  cleanup_transcription_def append_capture_def archive_audio_def log_event_def
  transcribe_def local_chat_completion_def check_local_llm_def attempts_of_def
  attempt_result_def breakdown_tasks_def breakdown_with_local_llm_def should_use_claude_def
  terminal_error_def str_last_error_def completion_loop_numeral time_sleep_def
  anthropic_client_def phrases_def

lemmas string_defs =
  py_strip_def strip_where_def isspace_def py_split_def py_lower_def str_lower_char_def
  upper_letters_def lower_letters_def latin1_upper_def latin1_lower_def
  show_nat.simps digit_char_def

lemmas example_defs =
  example_config_def example_env_def example_path_def example_world_def dead_env_def
  log_fail_env_def ratio_env_def raw_100_def clean_40_def tie_env_def raw_160_def clean_63_def
  handler_fail_env_def silent_probe_env_def path_str_def

lemmas path_defs =
  join_def processed_dir_def audio_dir_def sessions_dir_def raw_dir_def logs_dir_def
  capture_file_def stem_def suffix_of_def rfind_dot_def

theorem process_cleanup_failure_witness:
  "fst (process example_config dead_env example_path False False example_world) = Inr False \<and>
   (\<exists>r. metrics_jsonl (snd (process example_config dead_env example_path False False example_world)) = [r] \<and>
        status r = ''failed'' \<and>
        error r = Some ''Local LLM cleanup failed after 3 attempts: read timed out'' \<and>
        map_of (durations_sec r) ''transcription'' = Some 0 \<and>
        map_of (durations_sec r) ''cleanup'' = None \<and>
        map_of (durations_sec r) ''breakdown'' = None) \<and>
   audio_files (snd (process example_config dead_env example_path False False example_world))
     = [''/vault/audio/memo.m4a'']"
proof -
  have io: "io_error dead_env s = None" for s
    by (simp add: dead_env_def example_env_def)
  have tr: "fst (transcribe dead_env example_path example_world) = Inr (''remember to call the bank'', ''whisper_local'')"
    by (simp add: pipeline_defs string_defs example_defs path_defs)
  have cl: "fst (cleanup_transcription example_config dead_env ''remember to call the bank'' example_world)
              = Inl (RuntimeError ''Local LLM cleanup failed after 3 attempts: read timed out'')"
    by (simp add: pipeline_defs string_defs example_defs path_defs)
  have st: "exn_str (RuntimeError ''Local LLM cleanup failed after 3 attempts: read timed out'') \<noteq> []"
    by simp
  have el: "elapsed dead_env PcTranscribed PcT0 = 0"
    by (rule elapsed_zero) (simp_all add: dead_env_def example_env_def)
  have w: "metrics_jsonl example_world = []" "audio_files example_world = [''/vault/audio/memo.m4a'']"
    by (simp_all add: example_world_def)
  from process_cleanup_failure [of False dead_env example_path example_world _ _ example_config _ False,
         OF _ io tr io io cl st io io]
  show ?thesis
    by (auto simp: el w)
qed

text \<open>
  C1 as the claim states it fails on the code in two ways. When a write of the
  exception handler itself fails (here the append to the metrics log), the exception
  leaves \<open>process\<close> and no record is persisted. And the \<open>error\<close> field is \<open>str(exc)\<close>,
  which is empty when the exception carries no message.
\<close>

theorem process_cleanup_failure_counterexample:
  "fst (transcribe handler_fail_env example_path example_world)
     = Inr (''remember to call the bank'', ''whisper_local'') \<and>
   fst (cleanup_transcription example_config handler_fail_env ''remember to call the bank'' example_world)
     = Inl (RuntimeError ''Local LLM cleanup failed after 3 attempts: read timed out'') \<and>
   (case process example_config handler_fail_env example_path False False example_world of
      (result, w') \<Rightarrow>
        result = Inl (OSError ''[Errno 28] No space left on device'') \<and> metrics_jsonl w' = []) \<and>
   fst (transcribe silent_probe_env example_path example_world)
     = Inr (''remember to call the bank'', ''whisper_local'') \<and>
   fst (cleanup_transcription example_config silent_probe_env ''remember to call the bank'' example_world)
     = Inl (RequestException []) \<and>
   (case process example_config silent_probe_env example_path False False example_world of
      (result, w') \<Rightarrow>
        result = Inr False \<and> map status (metrics_jsonl w') = [''failed''] \<and>
        map error (metrics_jsonl w') = [Some []])"
  by (simp add: pipeline_defs string_defs example_defs path_defs)

text \<open>
  C2 fails on the code. When the append to the event log fails after a run that has
  succeeded so far, the success record is already in the metrics log; the handler then
  appends a second record, with status \<open>failed\<close>, for the same invocation, and \<open>process\<close>
  returns \<open>False\<close> although the audio file has been archived.
\<close>

theorem process_log_event_failure:
  "(case process example_config log_fail_env example_path False False example_world of
      (result, w') \<Rightarrow>
        result = Inr False \<and>
        map status (metrics_jsonl w') = [''success'', ''failed''] \<and>
        map error (metrics_jsonl w') = [None, Some ''[Errno 13] Permission denied''] \<and>
        audio_files w' = [''/vault/audio/processed/memo.m4a''])"
  by (simp add: pipeline_defs string_defs example_defs path_defs)

theorem process_clean_only_witness:
  "fst (process example_config example_env example_path False True example_world) = Inr True \<and>
   calls (snd (process example_config example_env example_path False True example_world)) =
     [Transcribe ''/vault/audio/memo.m4a'', LocalProbe, LocalPost ''cleanup'' 1,
      LocalPost ''cleanup'' 2, LocalPost ''cleanup'' 3] \<and>
   (\<exists>r. metrics_jsonl (snd (process example_config example_env example_path False True example_world)) = [r] \<and>
        status r = ''success'' \<and> breakdown_model r = Some ''skipped_clean_only'' \<and>
        map_of (durations_sec r) ''breakdown'' = None) \<and>
   (\<exists>entry pre. capture_md (snd (process example_config example_env example_path False True example_world)) = [entry] \<and>
        entry = pre @ tasks_placeholder_tail)"
proof -
  have ok: "fst (process example_config example_env example_path False True example_world) = Inr True"
    by (simp add: pipeline_defs string_defs example_defs path_defs)
  have cs: "calls (snd (process example_config example_env example_path False True example_world)) =
     [Transcribe ''/vault/audio/memo.m4a'', LocalProbe, LocalPost ''cleanup'' 1,
      LocalPost ''cleanup'' 2, LocalPost ''cleanup'' 3]"
    by (simp add: pipeline_defs string_defs example_defs path_defs)
  have w: "metrics_jsonl example_world = []" "capture_md example_world = []"
    by (simp_all add: example_world_def)
  from process_clean_only [OF ok] ok cs show ?thesis
    by (simp add: w)
qed

theorem process_compression_ratio_witness:
  "fst (process example_config ratio_env example_path False True example_world) = Inr True \<and>
   (\<exists>r. metrics_jsonl (snd (process example_config ratio_env example_path False True example_world)) = [r] \<and>
        raw_chars r = Some 100 \<and> clean_chars r = Some 40 \<and>
        compression_ratio r = Some (3602879701896397 / 9007199254740992)) \<and>
   fst (process example_config tie_env example_path False True example_world) = Inr True \<and>
   (\<exists>r. metrics_jsonl (snd (process example_config tie_env example_path False True example_world)) = [r] \<and>
        raw_chars r = Some 160 \<and> clean_chars r = Some 63 \<and>
        compression_ratio r = Some (nearest_double (3937 / 10000)))"
proof -
  have w: "metrics_jsonl example_world = []"
    by (simp add: example_world_def)
  have v: "nearest_double (2 / 5) = 3602879701896397 / 9007199254740992"
    by code_simp
  have ok: "fst (process example_config ratio_env example_path False True example_world) = Inr True"
    by (simp add: pipeline_defs string_defs example_defs path_defs)
  have tr: "fst (transcribe ratio_env example_path example_world) = Inr (raw_100, ''whisper_local'')"
    by (simp add: pipeline_defs string_defs example_defs path_defs)
  have cl: "fst (cleanup_transcription example_config ratio_env raw_100 example_world) = Inr clean_40"
    by (simp add: pipeline_defs string_defs example_defs path_defs)
  have len: "length raw_100 = 100" "length clean_40 = 40"
    by (simp_all add: raw_100_def clean_40_def)
  from process_compression_ratio [OF ok] obtain r raw meth clean where
    r: "metrics_jsonl (snd (process example_config ratio_env example_path False True example_world))
          = metrics_jsonl example_world @ [r]"
      "fst (transcribe ratio_env example_path example_world) = Inr (raw, meth)"
      "fst (cleanup_transcription example_config ratio_env raw example_world) = Inr clean"
      "raw_chars r = Some (length raw)" "clean_chars r = Some (length clean)"
      "length raw = 100 \<and> length clean = 40 \<longrightarrow> compression_ratio r = Some (nearest_double (2 / 5))"
    by blast
  from r(2) tr have raw: "raw = raw_100" by simp
  from r(3) cl raw have clean: "clean = clean_40" by simp
  from r raw clean len
  have 1: "\<exists>r. metrics_jsonl (snd (process example_config ratio_env example_path False True example_world)) = [r] \<and>
        raw_chars r = Some 100 \<and> clean_chars r = Some 40 \<and>
        compression_ratio r = Some (3602879701896397 / 9007199254740992)"
    by (simp add: w v)
  have ok': "fst (process example_config tie_env example_path False True example_world) = Inr True"
    by (simp add: pipeline_defs string_defs example_defs path_defs)
  have tr': "fst (transcribe tie_env example_path example_world) = Inr (raw_160, ''whisper_local'')"
    by (simp add: pipeline_defs string_defs example_defs path_defs)
  have cl': "fst (cleanup_transcription example_config tie_env raw_160 example_world) = Inr clean_63"
    by (simp add: pipeline_defs string_defs example_defs path_defs)
  have len': "length raw_160 = 160" "length clean_63 = 63"
    by (simp_all add: raw_160_def clean_63_def)
  from process_compression_ratio [OF ok'] obtain r' raw' meth' clean' where
    r': "metrics_jsonl (snd (process example_config tie_env example_path False True example_world))
          = metrics_jsonl example_world @ [r']"
      "fst (transcribe tie_env example_path example_world) = Inr (raw', meth')"
      "fst (cleanup_transcription example_config tie_env raw' example_world) = Inr clean'"
      "raw_chars r' = Some (length raw')" "clean_chars r' = Some (length clean')"
      "length raw' = 160 \<and> length clean' = 63 \<longrightarrow> compression_ratio r' = Some (nearest_double (3937 / 10000))"
    by blast
  from r'(2) tr' have raw': "raw' = raw_160" by simp
  from r'(3) cl' raw' have clean': "clean' = clean_63" by simp
  from r' raw' clean' len'
  have 2: "\<exists>r. metrics_jsonl (snd (process example_config tie_env example_path False True example_world)) = [r] \<and>
        raw_chars r = Some 160 \<and> clean_chars r = Some 63 \<and>
        compression_ratio r = Some (nearest_double (3937 / 10000))"
    by (simp add: w v)
  from ok 1 ok' 2 show ?thesis by blast
qed

section \<open>Round trip of the redaction codec\<close>

lemma ci_prefix_append:
  "ci_prefix t (x @ y) \<longleftrightarrow>
     (if length t \<le> length x then ci_prefix t x
      else ci_prefix (take (length x) t) x \<and> ci_prefix (drop (length x) t) y)"
proof (induction t x rule: ci_prefix.induct)
  case (1 s) then show ?case by simp
next
  case (2 p ps) then show ?case by simp
next
  case (3 p ps c cs) then show ?case by auto
qed

lemma mismatch_ci: "mismatch ci_eq t x \<Longrightarrow> \<not> ci_prefix t (x @ y)"
  by (induction ci_eq t x rule: mismatch.induct) (auto simp: ci_eq_def)

lemma mismatch_eq: "mismatch (=) t x \<Longrightarrow> \<not> prefix t (x @ y)"
  by (induction "(=) :: char \<Rightarrow> char \<Rightarrow> bool" t x rule: mismatch.induct) auto

text \<open>scanning over a block without matches\<close>
lemma sub_scan_block:
  assumes "\<forall>n < length x. \<not> m pat (drop n x @ y)"
  shows "sub_scan m pat repl (x @ y) = x @ sub_scan m pat repl y"
  using assms
proof (induction x)
  case Nil then show ?case by simp
next
  case (Cons c x)
  have 0: "\<not> m pat ((c # x) @ y)" using Cons.prems by (metis drop0 length_greater_0_conv list.discI)
  have "\<forall>n < length x. \<not> m pat (drop n x @ y)"
  proof (intro allI impI)
    fix n assume "n < length x"
    then have "Suc n < length (c # x)" by simp
    with Cons.prems have "\<not> m pat (drop (Suc n) (c # x) @ y)" by blast
    then show "\<not> m pat (drop n x @ y)" by simp
  qed
  with Cons.IH have "sub_scan m pat repl (x @ y) = x @ sub_scan m pat repl y" by blast
  with 0 show ?case by simp
qed

lemma sub_scan_match:
  assumes "m pat (pat @ y)" "pat \<noteq> []"
  shows "sub_scan m pat repl (pat @ y) = repl @ sub_scan m pat repl y"
proof -
  obtain c cs where p: "pat = c # cs" using assms(2) by (cases pat) auto
  show ?thesis using assms(1) unfolding p by simp
qed


lemma table_ok: "table_ok"
  by code_simp

lemma table_row:
  assumes "k < length ANONYMIZATION_MAP"
  shows "term_of k \<noteq> [] \<and> letters (term_of k) \<and>
        (case placeholder_of k of [] \<Rightarrow> False
         | b # q \<Rightarrow> b = CHR ''['' \<and> CHR ''['' \<notin> set q) \<and>
        (\<forall>i < length ANONYMIZATION_MAP.
          (\<forall>n < length (placeholder_of k). mismatch ci_eq (term_of i) (drop n (placeholder_of k))) \<and>
          (\<forall>n < length (term_of k). (n = 0 \<and> k = i) \<or> mismatch (=) (term_of i) (drop n (term_of k))) \<and>
          (\<forall>n < length (placeholder_of k). (n = 0 \<and> k = i) \<or> mismatch (=) (placeholder_of i) (drop n (placeholder_of k))) \<and>
          (\<forall>n < length (term_of k). mismatch (=) (placeholder_of i) (drop n (term_of k))))"
proof -
  have "list_all (\<lambda>k.
        term_of k \<noteq> [] \<and> letters (term_of k) \<and>
        (case placeholder_of k of [] \<Rightarrow> False
         | b # q \<Rightarrow> b = CHR ''['' \<and> CHR ''['' \<notin> set q) \<and>
        list_all (\<lambda>i.
          list_all (\<lambda>n. mismatch ci_eq (term_of i) (drop n (placeholder_of k)))
            [0..<length (placeholder_of k)] \<and>
          list_all (\<lambda>n. (n = 0 \<and> k = i) \<or> mismatch (=) (term_of i) (drop n (term_of k)))
            [0..<length (term_of k)] \<and>
          list_all (\<lambda>n. (n = 0 \<and> k = i) \<or> mismatch (=) (placeholder_of i) (drop n (placeholder_of k)))
            [0..<length (placeholder_of k)] \<and>
          list_all (\<lambda>n. mismatch (=) (placeholder_of i) (drop n (term_of k)))
            [0..<length (term_of k)])
          [0..<length ANONYMIZATION_MAP])
       [0..<length ANONYMIZATION_MAP]"
    using table_ok unfolding table_ok_def .
  then show ?thesis
    using assms unfolding list_all_iff by simp
qed

lemma table_facts:
  assumes "k < length ANONYMIZATION_MAP"
  shows "term_of k \<noteq> []" and "letters (term_of k)"
    and "\<exists>q. placeholder_of k = CHR ''['' # q \<and> CHR ''['' \<notin> set q"
proof -
  note r = table_row [OF assms]
  show "term_of k \<noteq> []" "letters (term_of k)" using r by blast+
  from r have "case placeholder_of k of [] \<Rightarrow> False | b # q \<Rightarrow> b = CHR ''['' \<and> CHR ''['' \<notin> set q"
    by blast
  then show "\<exists>q. placeholder_of k = CHR ''['' # q \<and> CHR ''['' \<notin> set q"
    by (cases "placeholder_of k") auto
qed

lemma table_mismatch:
  assumes "k < length ANONYMIZATION_MAP" "i < length ANONYMIZATION_MAP"
  shows "n < length (placeholder_of k) \<Longrightarrow> mismatch ci_eq (term_of i) (drop n (placeholder_of k))"
    and "n < length (term_of k) \<Longrightarrow> \<not> (n = 0 \<and> k = i) \<Longrightarrow> mismatch (=) (term_of i) (drop n (term_of k))"
    and "n < length (placeholder_of k) \<Longrightarrow> \<not> (n = 0 \<and> k = i) \<Longrightarrow> mismatch (=) (placeholder_of i) (drop n (placeholder_of k))"
    and "n < length (term_of k) \<Longrightarrow> mismatch (=) (placeholder_of i) (drop n (term_of k))"
  using table_row [OF assms(1)] assms(2) by blast+

lemma letter_not_bracket:
  assumes "c \<in> set (upper_letters @ lower_letters)"
  shows "\<not> ci_eq c (CHR ''['')"
  using assms by (auto simp: ci_eq_def lower_char_def upper_letters_def lower_letters_def)


lemma letters_drop: "letters t \<Longrightarrow> letters (drop n t)"
  unfolding letters_def list_all_iff by (auto dest: in_set_dropD)

lemma letters_Cons: "letters (p # ps) \<Longrightarrow> p \<in> set (upper_letters @ lower_letters) \<and> letters ps"
  by (simp add: letters_def)

lemma render_Tm: "render A (Tm k # ts) = render A [Tm k] @ render A ts"
  by simp

lemma render_single: "render A (tk # ts) = render A [tk] @ render A ts"
  by (cases tk) simp_all

text \<open>A case-insensitive match of an all-letter pattern never touches a placeholder.\<close>

lemma ci_transfer:
  assumes "letters t" "wf_toks toks"
  shows "ci_prefix t (render A toks) \<Longrightarrow> ci_prefix t (render plain toks)"
  using assms
proof (induction toks arbitrary: t)
  case Nil
  then show ?case by simp
next
  case (Cons tk toks)
  have wf: "wf_toks toks" using Cons.prems(3) by (auto simp: wf_toks_def)
  show ?case
  proof (cases t)
    case Nil
    then show ?thesis by simp
  next
    case (Cons p ps)
    note t = this
    have lp: "p \<in> set (upper_letters @ lower_letters)" "letters ps"
      using Cons.prems(2) t letters_Cons by blast+
    show ?thesis
    proof (cases tk)
      case (Ch c)
      with Cons.prems(1) t have "lower_char p = lower_char c" "ci_prefix ps (render A toks)" by auto
      with Cons.IH [OF _ lp(2) wf] Ch t show ?thesis by simp
    next
      case (Tm k)
      have k: "k < length ANONYMIZATION_MAP" using Cons.prems(3) Tm by (auto simp: wf_toks_def)
      show ?thesis
      proof (cases "A k")
        case True
        obtain q where q: "placeholder_of k = CHR ''['' # q" using table_facts(3) [OF k] by blast
        from Cons.prems(1) Tm True q t have "lower_char p = lower_char (CHR ''['')" by simp
        with letter_not_bracket [OF lp(1)] show ?thesis by (simp add: ci_eq_def)
      next
        case False
        let ?x = "term_of k"
        from Cons.prems(1) Tm False have m: "ci_prefix t (?x @ render A toks)" by simp
        show ?thesis
        proof (cases "length t \<le> length ?x")
          case True
          with m have "ci_prefix t ?x" by (simp add: ci_prefix_append)
          with True Tm show ?thesis by (simp add: ci_prefix_append)
        next
          case False
          with m have 1: "ci_prefix (take (length ?x) t) ?x" and 2: "ci_prefix (drop (length ?x) t) (render A toks)"
            by (simp_all add: ci_prefix_append)
          have "ci_prefix (drop (length ?x) t) (render plain toks)"
            using 2 letters_drop [OF Cons.prems(2)] wf by (rule Cons.IH)
          with 1 False Tm show ?thesis by (simp add: ci_prefix_append)
        qed
      qed
    qed
  qed
qed

lemma ci_transfer_block:
  assumes "letters t" "wf_toks toks" "ci_prefix t (x @ render A toks)"
  shows "ci_prefix t (x @ render plain toks)"
proof (cases "length t \<le> length x")
  case True
  with assms(3) show ?thesis by (simp add: ci_prefix_append)
next
  case False
  with assms(3) have 1: "ci_prefix (take (length x) t) x" and 2: "ci_prefix (drop (length x) t) (render A toks)"
    by (simp_all add: ci_prefix_append)
  have "ci_prefix (drop (length x) t) (render plain toks)"
    using letters_drop [OF assms(1)] assms(2) 2 by (rule ci_transfer)
  with 1 False show ?thesis by (simp add: ci_prefix_append)
qed

text \<open>An exact match of a bracket-free string never touches a placeholder either.\<close>

lemma eq_transfer:
  assumes "CHR ''['' \<notin> set q" "wf_toks toks"
  shows "prefix q (render A toks) \<Longrightarrow> prefix q (render plain toks)"
  using assms
proof (induction toks arbitrary: q)
  case Nil
  then show ?case by simp
next
  case (Cons tk toks)
  have wf: "wf_toks toks" using Cons.prems(3) by (auto simp: wf_toks_def)
  show ?case
  proof (cases q)
    case Nil
    then show ?thesis by simp
  next
    case (Cons p ps)
    note q = this
    show ?thesis
    proof (cases tk)
      case (Ch c)
      with Cons.prems(1) q have "p = c" "prefix ps (render A toks)" by auto
      moreover have "CHR ''['' \<notin> set ps" using Cons.prems(2) q by simp
      ultimately show ?thesis using Cons.IH [OF _ _ wf] Ch q by simp
    next
      case (Tm k)
      have k: "k < length ANONYMIZATION_MAP" using Cons.prems(3) Tm by (auto simp: wf_toks_def)
      show ?thesis
      proof (cases "A k")
        case True
        obtain r where r: "placeholder_of k = CHR ''['' # r" using table_facts(3) [OF k] by blast
        from Cons.prems(1) Tm True r q have "p = CHR ''[''" by simp
        with Cons.prems(2) q show ?thesis by simp
      next
        case False
        let ?x = "term_of k"
        from Cons.prems(1) Tm False have m: "prefix q (?x @ render A toks)" by simp
        then consider "prefix q ?x" | us where "q = ?x @ us" "prefix us (render A toks)"
          by (auto simp: prefix_append)
        then show ?thesis
        proof cases
          case 1
          then show ?thesis using Tm by (simp add: prefix_append)
        next
          case 2
          have "CHR ''['' \<notin> set us" using Cons.prems(2) 2(1) by simp
          with 2(2) have "prefix us (render plain toks)" using wf Cons.IH by blast
          with 2(1) Tm show ?thesis by simp
        qed
      qed
    qed
  qed
qed

lemma ci_prefix_self: "ci_prefix t (t @ y)"
  by (induction t) simp_all

text \<open>One pass of \<open>anonymize\<close> turns the occurrences of term \<open>i\<close> into its placeholder.\<close>

lemma sub_stage:
  assumes "i < length ANONYMIZATION_MAP" "\<not> A i" "wf_toks toks" "nostray toks"
    and B: "\<And>k. B k = (k = i \<or> A k)"
  shows "sub_scan ci_prefix (term_of i) (placeholder_of i) (render A toks) = render B toks"
  using assms(3,4)
proof (induction toks)
  case Nil
  then show ?case by simp
next
  case (Cons tk toks)
  have wf: "wf_toks toks" using Cons.prems(1) by (auto simp: wf_toks_def)
  have ns: "nostray toks" using Cons.prems(2) by simp
  note IH = Cons.IH [OF wf ns]
  note ti = table_facts [OF assms(1)]
  show ?case
  proof (cases "tk = Tm i")
    case True
    have "sub_scan ci_prefix (term_of i) (placeholder_of i) (term_of i @ render A toks)
            = placeholder_of i @ sub_scan ci_prefix (term_of i) (placeholder_of i) (render A toks)"
      by (rule sub_scan_match) (simp_all add: ci_prefix_self ti(1))
    with True IH assms(2) B show ?thesis by simp
  next
    case False
    let ?x = "render A [tk]"
    have same: "render B [tk] = ?x"
      using False B by (cases tk) auto
    have nomatch: "\<forall>n < length ?x. \<not> ci_prefix (term_of i) (drop n ?x @ render A toks)"
    proof (intro allI impI)
      fix n assume n: "n < length ?x"
      show "\<not> ci_prefix (term_of i) (drop n ?x @ render A toks)"
      proof (cases "\<exists>k. tk = Tm k \<and> A k")
        case True
        then obtain k where k: "tk = Tm k" "A k" by blast
        have kl: "k < length ANONYMIZATION_MAP" using Cons.prems(1) k by (auto simp: wf_toks_def)
        have "mismatch ci_eq (term_of i) (drop n (placeholder_of k))"
          using table_mismatch(1) [OF kl assms(1)] n k by simp
        then show ?thesis using k by (simp add: mismatch_ci)
      next
        case False
        then have pl: "?x = render plain [tk]" by (cases tk) auto
        have "\<not> ci_prefix (term_of i) (drop n (render plain [tk]) @ render plain toks)"
          using Cons.prems(2) assms(1) n \<open>tk \<noteq> Tm i\<close> pl by auto
        then show ?thesis
          using ci_transfer_block [OF ti(2) wf] pl by metis
      qed
    qed
    have "sub_scan ci_prefix (term_of i) (placeholder_of i) (?x @ render A toks)
            = ?x @ sub_scan ci_prefix (term_of i) (placeholder_of i) (render A toks)"
      using nomatch by (rule sub_scan_block)
    then show ?thesis
      using IH same render_single [of A tk toks] render_single [of B tk toks] by simp
  qed
qed

text \<open>One pass of \<open>deanonymize\<close> turns the placeholders of term \<open>j\<close> back into the term.\<close>

lemma rep_stage:
  assumes "j < length ANONYMIZATION_MAP" "A j" "wf_toks toks" "noph toks"
    and B: "\<And>k. B k = (k \<noteq> j \<and> A k)"
  shows "sub_scan prefix (placeholder_of j) (term_of j) (render A toks) = render B toks"
  using assms(3,4)
proof (induction toks)
  case Nil
  then show ?case by simp
next
  case (Cons tk toks)
  have wf: "wf_toks toks" using Cons.prems(1) by (auto simp: wf_toks_def)
  have np: "noph toks" using Cons.prems(2) by simp
  note IH = Cons.IH [OF wf np]
  obtain q where q: "placeholder_of j = CHR ''['' # q" "CHR ''['' \<notin> set q"
    using table_facts(3) [OF assms(1)] by blast
  show ?case
  proof (cases "tk = Tm j")
    case True
    have "sub_scan prefix (placeholder_of j) (term_of j) (placeholder_of j @ render A toks)
            = term_of j @ sub_scan prefix (placeholder_of j) (term_of j) (render A toks)"
      by (rule sub_scan_match) (simp_all add: q)
    with True IH assms(2) B show ?thesis by simp
  next
    case False
    let ?x = "render A [tk]"
    have same: "render B [tk] = ?x"
      using False B by (cases tk) auto
    have nomatch: "\<forall>n < length ?x. \<not> prefix (placeholder_of j) (drop n ?x @ render A toks)"
    proof (intro allI impI)
      fix n assume n: "n < length ?x"
      show "\<not> prefix (placeholder_of j) (drop n ?x @ render A toks)"
      proof (cases tk)
        case (Ch c)
        then have n0: "n = 0" using n by simp
        show ?thesis
        proof
          assume "prefix (placeholder_of j) (drop n ?x @ render A toks)"
          then have c: "c = CHR ''[''" and "prefix q (render A toks)"
            using Ch n0 q by auto
          then have "prefix q (render plain toks)" using eq_transfer [OF q(2) wf] by blast
          then have "prefix (placeholder_of j) (c # render plain toks)" using c q by simp
          with Cons.prems(2) Ch assms(1) show False by simp
        qed
      next
        case (Tm k)
        have kl: "k < length ANONYMIZATION_MAP" using Cons.prems(1) Tm by (auto simp: wf_toks_def)
        show ?thesis
        proof (cases "A k")
          case True
          have "mismatch (=) (placeholder_of j) (drop n (placeholder_of k))"
            using table_mismatch(3) [OF kl assms(1)] n Tm True False by auto
          then show ?thesis using Tm True by (simp add: mismatch_eq)
        next
          case False
          have "mismatch (=) (placeholder_of j) (drop n (term_of k))"
            using table_mismatch(4) [OF kl assms(1)] n Tm False by auto
          then show ?thesis using Tm False by (simp add: mismatch_eq)
        qed
      qed
    qed
    have "sub_scan prefix (placeholder_of j) (term_of j) (?x @ render A toks)
            = ?x @ sub_scan prefix (placeholder_of j) (term_of j) (render A toks)"
      using nomatch by (rule sub_scan_block)
    then show ?thesis
      using IH same render_single [of A tk toks] render_single [of B tk toks] by simp
  qed
qed


lemma table_nth:
  assumes "k < length ANONYMIZATION_MAP"
  shows "(term_of k, placeholder_of k) \<in> set ANONYMIZATION_MAP"
  using assms unfolding term_of_def placeholder_of_def by (metis nth_mem prod.collapse)

lemma find_term_Some:
  assumes "find_term s = Some k"
  shows "k < length ANONYMIZATION_MAP" and "prefix (term_of k) s"
  using assms unfolding find_term_def by (auto simp: find_Some_iff)

lemma find_term_None:
  assumes "find_term s = None" "k < length ANONYMIZATION_MAP"
  shows "\<not> prefix (term_of k) s"
  using assms unfolding find_term_def by (auto simp: find_None_iff)

lemma tokenize_Some:
  assumes "find_term (c # cs) = Some k"
  shows "c # cs = term_of k @ drop (length (term_of k) - 1) cs"
proof -
  from find_term_Some [OF assms] obtain r where r: "c # cs = term_of k @ r" and ne: "term_of k \<noteq> []"
    using table_facts(1) by (auto simp: prefix_def)
  then obtain t where t: "term_of k = c # t" by (cases "term_of k") auto
  with r have "cs = t @ r" by simp
  then have "drop (length (term_of k) - 1) cs = r" using t by simp
  with r show ?thesis by simp
qed

lemma render_tokenize: "render plain (tokenize s) = s"
proof (induction s rule: tokenize.induct)
  case 1
  show ?case by simp
next
  case (2 c cs)
  show ?case
  proof (cases "find_term (c # cs)")
    case None
    with 2(1) show ?thesis by simp
  next
    case (Some k)
    have "render plain (tokenize (c # cs)) =
            term_of k @ render plain (tokenize (drop (length (term_of k) - 1) cs))"
      using Some by simp
    also have "\<dots> = term_of k @ drop (length (term_of k) - 1) cs"
      using 2(2) Some by simp
    also have "\<dots> = c # cs"
      by (rule tokenize_Some [OF Some, symmetric])
    finally show ?thesis .
  qed
qed

lemma wf_tokenize: "wf_toks (tokenize s)"
proof (induction s rule: tokenize.induct)
  case 1
  show ?case by (simp add: wf_toks_def)
next
  case (2 c cs)
  show ?case
  proof (cases "find_term (c # cs)")
    case None
    with 2(1) show ?thesis by (simp add: wf_toks_def)
  next
    case (Some k)
    with 2(2) find_term_Some(1) [OF Some] show ?thesis by (auto simp: wf_toks_def)
  qed
qed

lemma canonical_drop: "canonical s \<Longrightarrow> canonical (drop n s)"
proof (induction s arbitrary: n)
  case Nil
  then show ?case by simp
next
  case (Cons c cs)
  then show ?case by (cases n) simp_all
qed

lemma canonical_head:
  assumes "canonical s" "k < length ANONYMIZATION_MAP" "ci_prefix (term_of k) s"
  shows "prefix (term_of k) s"
proof (cases s)
  case Nil
  with assms(3) table_facts(1) [OF assms(2)] show ?thesis by (cases "term_of k") auto
next
  case (Cons c cs)
  with assms(1) table_nth [OF assms(2)] assms(3) show ?thesis
    by (auto simp: list_all_iff)
qed

lemma placeholder_free_drop: "placeholder_free s \<Longrightarrow> placeholder_free (drop n s)"
proof (induction s arbitrary: n)
  case Nil
  then show ?case by simp
next
  case (Cons c cs)
  then show ?case by (cases n) simp_all
qed

lemma placeholder_free_head:
  assumes "placeholder_free (c # cs)" "k < length ANONYMIZATION_MAP"
  shows "\<not> prefix (placeholder_of k) (c # cs)"
  using assms(1) table_nth [OF assms(2)] by (auto simp: list_all_iff)

lemma nostray_tokenize: "canonical s \<Longrightarrow> nostray (tokenize s)"
proof (induction s rule: tokenize.induct)
  case 1
  show ?case by simp
next
  case (2 c cs)
  show ?case
  proof (cases "find_term (c # cs)")
    case None
    have "canonical cs" using 2(3) by simp
    with 2(1) None have rest: "nostray (tokenize cs)" by simp
    have "\<not> ci_prefix (term_of i) (c # cs)" if "i < length ANONYMIZATION_MAP" for i
      using canonical_head [OF 2(3) that] find_term_None [OF None that] by blast
    with None rest show ?thesis by (simp add: render_tokenize)
  next
    case (Some k)
    let ?r = "drop (length (term_of k) - 1) cs"
    note s = tokenize_Some [OF Some]
    have kl: "k < length ANONYMIZATION_MAP" by (rule find_term_Some(1) [OF Some])
    have "?r = drop (length (term_of k)) (c # cs)" by (subst s) simp
    then have "canonical ?r" using canonical_drop [OF 2(3)] by simp
    with 2(2) Some have rest: "nostray (tokenize ?r)" by simp
    have "(n = 0 \<and> k = i) \<or> \<not> ci_prefix (term_of i) (drop n (term_of k) @ ?r)"
      if "i < length ANONYMIZATION_MAP" "n < length (term_of k)" for i n
    proof (cases "n = 0 \<and> k = i")
      case True
      then show ?thesis by simp
    next
      case False
      have d: "drop n (term_of k) @ ?r = drop n (c # cs)" using that(2) by (subst s) simp
      have "mismatch (=) (term_of i) (drop n (term_of k))"
        using table_mismatch(2) [OF kl that(1) that(2)] False by blast
      then have "\<not> prefix (term_of i) (drop n (term_of k) @ ?r)" by (rule mismatch_eq)
      moreover have "canonical (drop n (c # cs))" by (rule canonical_drop [OF 2(3)])
      ultimately show ?thesis
        using canonical_head [OF _ that(1), of "drop n (c # cs)"] d by auto
    qed
    with Some rest show ?thesis by (simp add: render_tokenize)
  qed
qed

lemma noph_tokenize: "placeholder_free s \<Longrightarrow> noph (tokenize s)"
proof (induction s rule: tokenize.induct)
  case 1
  show ?case by simp
next
  case (2 c cs)
  show ?case
  proof (cases "find_term (c # cs)")
    case None
    have "placeholder_free cs" using 2(3) by simp
    with 2(1) None have rest: "noph (tokenize cs)" by simp
    with None placeholder_free_head [OF 2(3)] show ?thesis by (simp add: render_tokenize)
  next
    case (Some k)
    let ?r = "drop (length (term_of k) - 1) cs"
    note s = tokenize_Some [OF Some]
    have "?r = drop (length (term_of k)) (c # cs)" by (subst s) simp
    then have "placeholder_free ?r" using placeholder_free_drop [OF 2(3)] by simp
    with 2(2) Some have rest: "noph (tokenize ?r)" by simp
    with Some show ?thesis by simp
  qed
qed


lemma render_cong:
  assumes "\<And>k. Tm k \<in> set toks \<Longrightarrow> A k = B k"
  shows "render A toks = render B toks"
  using assms
proof (induction toks)
  case Nil
  show ?case by simp
next
  case (Cons tk toks)
  then show ?case by (cases tk) auto
qed

lemma no_match_id: "\<not> ci_search pat s \<Longrightarrow> sub_scan ci_prefix pat repl s = s"
  by (induction s) auto

lemma ci_search_append: "ci_search pat y \<Longrightarrow> ci_search pat (x @ y)"
proof (induction x)
  case Nil
  then show ?case by simp
next
  case (Cons c x)
  then show ?case by simp
qed

lemma ci_search_self:
  assumes "pat \<noteq> []"
  shows "ci_search pat (pat @ y)"
proof -
  obtain c cs where "pat = c # cs" using assms by (cases pat) auto
  then show ?thesis using ci_prefix_self [of pat y] by simp
qed

lemma found_if_token:
  assumes "Tm i \<in> set toks" "\<not> A i" "i < length ANONYMIZATION_MAP"
  shows "ci_search (term_of i) (render A toks)"
  using assms(1)
proof (induction toks)
  case Nil
  then show ?case by simp
next
  case (Cons tk toks)
  show ?case
  proof (cases "tk = Tm i")
    case True
    then show ?thesis
      using assms(2) ci_search_self [OF table_facts(1) [OF assms(3)]] by simp
  next
    case False
    with Cons have "ci_search (term_of i) (render A toks)" by simp
    then have "ci_search (term_of i) (render A [tk] @ render A toks)" by (rule ci_search_append)
    then show ?thesis using render_single [of A tk toks] by simp
  qed
qed

lemma anonymize_step_stage:
  assumes "i < length ANONYMIZATION_MAP" "wf_toks toks" "nostray toks"
  shows "anonymize_step (term_of i, placeholder_of i) (render (\<lambda>j. j < i) toks, rm) =
           (render (\<lambda>j. j < Suc i) toks,
            if found toks i then AList.update (placeholder_of i) (term_of i) rm else rm)"
proof -
  have st: "sub_scan ci_prefix (term_of i) (placeholder_of i) (render (\<lambda>j. j < i) toks)
              = render (\<lambda>j. j < Suc i) toks"
    by (rule sub_stage [OF assms(1) _ assms(2,3)]) auto
  have ne: "term_of i \<noteq> []" by (rule table_facts(1) [OF assms(1)])
  show ?thesis
  proof (cases "found toks i")
    case True
    then show ?thesis
      using st ne by (simp add: anonymize_step_def re_sub_ci_def sub_all_def found_def)
  next
    case False
    then have "sub_scan ci_prefix (term_of i) (placeholder_of i) (render (\<lambda>j. j < i) toks)
                 = render (\<lambda>j. j < i) toks"
      unfolding found_def by (rule no_match_id)
    with st have "render (\<lambda>j. j < i) toks = render (\<lambda>j. j < Suc i) toks" by simp
    with False show ?thesis
      by (simp add: anonymize_step_def found_def)
  qed
qed

lemma update_fresh:
  assumes "k \<notin> fst ` set al"
  shows "AList.update k v al = al @ [(k, v)]"
  using assms by (induction al) auto

lemma placeholders_distinct:
  assumes "i < length ANONYMIZATION_MAP" "k < length ANONYMIZATION_MAP" "k \<noteq> i"
  shows "placeholder_of i \<noteq> placeholder_of k"
proof
  assume eq: "placeholder_of i = placeholder_of k"
  obtain q where q: "placeholder_of k = CHR ''['' # q" using table_facts(3) [OF assms(2)] by blast
  have "mismatch (=) (placeholder_of i) (drop 0 (placeholder_of k))"
    using table_mismatch(3) [OF assms(2) assms(1), of 0] assms(3) q by simp
  then have "mismatch (=) (placeholder_of i) (placeholder_of k)" by simp
  then have "\<not> prefix (placeholder_of i) (placeholder_of k @ [])" by (rule mismatch_eq)
  with eq show False by simp
qed

lemma rmap_keys:
  assumes "n \<le> length ANONYMIZATION_MAP"
  shows "fst ` set (rmap_upto toks n) \<subseteq> placeholder_of ` {0..<n}"
  by (auto simp: rmap_upto_def split: if_splits)

lemma rmap_Suc:
  "rmap_upto toks (Suc n) =
     rmap_upto toks n @ (if found toks n then [(placeholder_of n, term_of n)] else [])"
  by (simp add: rmap_upto_def)

lemma anonymize_upto:
  assumes "wf_toks toks" "nostray toks" "n \<le> length ANONYMIZATION_MAP"
  shows "fold anonymize_step (map (\<lambda>k. (term_of k, placeholder_of k)) [0..<n])
           (render (\<lambda>j. j < 0) toks, []) = (render (\<lambda>j. j < n) toks, rmap_upto toks n)"
  using assms(3)
proof (induction n)
  case 0
  show ?case by (simp add: rmap_upto_def)
next
  case (Suc n)
  then have n: "n < length ANONYMIZATION_MAP" and IH:
    "fold anonymize_step (map (\<lambda>k. (term_of k, placeholder_of k)) [0..<n])
           (render (\<lambda>j. j < 0) toks, []) = (render (\<lambda>j. j < n) toks, rmap_upto toks n)"
    by simp_all
  have fresh: "placeholder_of n \<notin> fst ` set (rmap_upto toks n)"
  proof
    assume "placeholder_of n \<in> fst ` set (rmap_upto toks n)"
    then obtain k where "k < n" "placeholder_of n = placeholder_of k"
      using rmap_keys [of n toks] n by auto
    with placeholders_distinct [of n k] n show False by simp
  qed
  have "fold anonymize_step (map (\<lambda>k. (term_of k, placeholder_of k)) [0..<Suc n])
           (render (\<lambda>j. j < 0) toks, [])
        = anonymize_step (term_of n, placeholder_of n) (render (\<lambda>j. j < n) toks, rmap_upto toks n)"
    using IH by simp
  also have "\<dots> = (render (\<lambda>j. j < Suc n) toks,
            if found toks n then AList.update (placeholder_of n) (term_of n) (rmap_upto toks n)
            else rmap_upto toks n)"
    by (rule anonymize_step_stage [OF n assms(1,2)])
  also have "\<dots> = (render (\<lambda>j. j < Suc n) toks, rmap_upto toks (Suc n))"
    using update_fresh [OF fresh] by (simp add: rmap_Suc)
  finally show ?case .
qed

lemma deanonymize_append:
  "deanonymize s (xs @ ys) = deanonymize (deanonymize s xs) ys"
  by (simp add: deanonymize_def)

lemma deanonymize_upto:
  assumes "wf_toks toks" "noph toks" "n \<le> length ANONYMIZATION_MAP"
  shows "deanonymize (render (\<lambda>j. 0 \<le> j) toks) (rmap_upto toks n) = render (\<lambda>j. n \<le> j) toks"
  using assms(3)
proof (induction n)
  case 0
  show ?case by (simp add: rmap_upto_def deanonymize_def)
next
  case (Suc n)
  then have n: "n < length ANONYMIZATION_MAP" and IH:
    "deanonymize (render (\<lambda>j. 0 \<le> j) toks) (rmap_upto toks n) = render (\<lambda>j. n \<le> j) toks"
    by simp_all
  obtain q where q: "placeholder_of n = CHR ''['' # q" using table_facts(3) [OF n] by blast
  have step: "deanonymize (render (\<lambda>j. n \<le> j) toks)
                (if found toks n then [(placeholder_of n, term_of n)] else [])
              = render (\<lambda>j. Suc n \<le> j) toks"
  proof (cases "found toks n")
    case True
    have "sub_scan prefix (placeholder_of n) (term_of n) (render (\<lambda>j. n \<le> j) toks)
            = render (\<lambda>j. Suc n \<le> j) toks"
      by (rule rep_stage [OF n _ assms(1,2)]) auto
    with True q show ?thesis
      by (simp add: deanonymize_def str_replace_def sub_all_def)
  next
    case False
    have "Tm n \<notin> set toks"
      using False found_if_token [of n toks "\<lambda>j. j < n", OF _ _ n] by (auto simp: found_def)
    then have "render (\<lambda>j. n \<le> j) toks = render (\<lambda>j. Suc n \<le> j) toks"
      by (intro render_cong) (metis Suc_leD Suc_le_eq le_neq_implies_less)
    with False show ?thesis by (simp add: deanonymize_def)
  qed
  show ?case
    using IH step by (simp add: rmap_Suc deanonymize_append)
qed

lemma table_as_map:
  "ANONYMIZATION_MAP = map (\<lambda>k. (term_of k, placeholder_of k)) [0..<length ANONYMIZATION_MAP]"
  by (simp add: term_of_def placeholder_of_def map_nth)

text \<open>
  C3, as amended. For every text in which each occurrence of a sensitive term, found with
  the case of letters ignored, is spelled exactly as in the table, and in which no
  placeholder occurs, restoring the redacted text with the reverse map gives the text
  back: \<open>deanonymize(anonymize(text)[0], anonymize(text)[1]) == text\<close>.
\<close>

theorem anonymize_roundtrip_canonical:
  assumes "canonical input" and "placeholder_free input"
  shows "deanonymize (fst (anonymize input)) (snd (anonymize input)) = input"
proof -
  define toks where "toks = tokenize input"
  have wf: "wf_toks toks" unfolding toks_def by (rule wf_tokenize)
  have ns: "nostray toks" unfolding toks_def using assms(1) by (rule nostray_tokenize)
  have np: "noph toks" unfolding toks_def using assms(2) by (rule noph_tokenize)
  have in0: "render (\<lambda>j. j < 0) toks = input"
    using render_tokenize [of input] by (simp add: toks_def)
  have "anonymize input =
          fold anonymize_step (map (\<lambda>k. (term_of k, placeholder_of k)) [0..<length ANONYMIZATION_MAP])
            (render (\<lambda>j. j < 0) toks, [])"
    unfolding anonymize_def in0 by (subst table_as_map) simp
  also have "\<dots> = (render (\<lambda>j. j < length ANONYMIZATION_MAP) toks,
                    rmap_upto toks (length ANONYMIZATION_MAP))"
    by (rule anonymize_upto [OF wf ns]) simp
  finally have an: "anonymize input = (render (\<lambda>j. j < length ANONYMIZATION_MAP) toks,
                    rmap_upto toks (length ANONYMIZATION_MAP))" .
  have all: "render (\<lambda>j. j < length ANONYMIZATION_MAP) toks = render (\<lambda>j. 0 \<le> j) toks"
    using wf by (intro render_cong) (simp add: wf_toks_def)
  have none: "render (\<lambda>j. length ANONYMIZATION_MAP \<le> j) toks = render plain toks"
    using wf by (intro render_cong) (auto simp: wf_toks_def)
  have "deanonymize (fst (anonymize input)) (snd (anonymize input))
          = deanonymize (render (\<lambda>j. 0 \<le> j) toks) (rmap_upto toks (length ANONYMIZATION_MAP))"
    by (simp add: an all)
  also have "\<dots> = render (\<lambda>j. length ANONYMIZATION_MAP \<le> j) toks"
    by (rule deanonymize_upto [OF wf np]) simp
  also have "\<dots> = input"
    using none render_tokenize [of input] by (simp add: toks_def)
  finally show ?thesis .
qed

theorem anonymize_roundtrip_canonical_witness:
  "canonical ''I use Google and Ollama with Obsidian'' \<and>
   placeholder_free ''I use Google and Ollama with Obsidian'' \<and>
   fst (anonymize ''I use Google and Ollama with Obsidian'') = ''I use [COMPANY_B] and [TOOL_B] with [TOOL_A]'' \<and>
   deanonymize (fst (anonymize ''I use Google and Ollama with Obsidian''))
               (snd (anonymize ''I use Google and Ollama with Obsidian''))
     = ''I use Google and Ollama with Obsidian''"
proof -
  have c: "canonical ''I use Google and Ollama with Obsidian''" by code_simp
  have p: "placeholder_free ''I use Google and Ollama with Obsidian''" by code_simp
  have a: "fst (anonymize ''I use Google and Ollama with Obsidian'') = ''I use [COMPANY_B] and [TOOL_B] with [TOOL_A]''"
    by code_simp
  from anonymize_roundtrip_canonical [OF c p] c p a show ?thesis by simp
qed

text \<open>
  C3 as stated fails: no term of the table is a substring of its placeholder, yet a
  term written in another case comes back in the table's spelling.
\<close>

theorem anonymize_roundtrip_counterexample:
  "list_all (\<lambda>(t, p). \<not> contains t p) ANONYMIZATION_MAP \<and>
   deanonymize (fst (anonymize ''google'')) (snd (anonymize ''google'')) = ''Google'' \<and>
   deanonymize (fst (anonymize ''google'')) (snd (anonymize ''google'')) \<noteq> ''google''"
  by code_simp

text \<open>
  A placeholder that is already in the text is turned into a term as well, which is why
  the amended law asks for texts without placeholders.
\<close>

lemma placeholder_in_text_not_restored:
  "canonical ''[TOOL_A] Obsidian'' \<and>
   deanonymize (fst (anonymize ''[TOOL_A] Obsidian'')) (snd (anonymize ''[TOOL_A] Obsidian''))
     = ''Obsidian Obsidian''"
  by code_simp

end
